theory Spec2Isabelle
  imports Main
begin

unbundle bit_operations_syntax

section \<open>Data model of \<open>connection_pool.cpp\<close>\<close>

text \<open>
  \<open>Date_t\<close> holds a count of milliseconds since the epoch in a 64-bit signed integer
  and the durations (\<open>Minutes\<close>, \<open>Seconds\<close>, \<open>Milliseconds\<close>) are millisecond
  counts. Both are integers here; the values of \<open>Date_t\<close> are those from \<open>- 2 ^ 63\<close> to
  \<open>Date_t::max()\<close>, which is \<open>2 ^ 63 - 1\<close>.
\<close>

type_synonym Date_t = int
type_synonym Milliseconds = int

definition kNeverTooStale :: Date_t where
  "kNeverTooStale = 9223372036854775807"

definition isDate :: "int \<Rightarrow> bool" where
  "isDate d \<longleftrightarrow> - (2 ^ 63) \<le> d \<and> d \<le> kNeverTooStale"

text \<open>
  \<open>Date_t::operator+\<close> (declared outside this file) adds the duration to the count in
  the 64-bit integer, so a sum beyond \<open>Date_t::max()\<close> wraps around in two's complement
  to the negative dates.
\<close>

definition Date_plus :: "Date_t \<Rightarrow> Milliseconds \<Rightarrow> Date_t" where
  "Date_plus d ms = (d + ms + 2 ^ 63) mod 2 ^ 64 - 2 ^ 63"

definition kCleanUpInterval :: Milliseconds where
  "kCleanUpInterval = 5 * 60 * 1000"

definition kMaxConnectionAge :: Milliseconds where
  "kMaxConnectionAge = 30 * 1000"

text \<open>
  A \<open>DBClientConnection\<close> object on the free store: the endpoint it is connected to, the
  socket timeout (kept as the millisecond count that \<open>timeout.count() / 1000.0\<close> is
  computed from), the tag of its messaging port, and whether the port was shut down.
  Objects are addressed by natural numbers; \<open>new\<close> hands out the addresses
  \<open>0, 1, 2, ...\<close> in turn and never reuses one. \<open>'h\<close> is \<open>HostAndPort\<close>, ordered as
  the keys of a \<open>std::map\<close> are.
\<close>

record 'h DBClientConnection =
  serverHostAndPort :: 'h
  soTimeout :: Milliseconds
  portTag :: int
  portShutdown :: bool

type_synonym 'h Heap = "nat \<rightharpoonup> 'h DBClientConnection"

text \<open>
  \<open>ConnectionInfo\<close>: the owning pointer \<open>conn\<close> and the \<open>creationDate\<close>. A
  \<open>ConnectionList\<close> is a \<open>std::list\<close> of them; an iterator into a list is
  represented by the element it points at.
\<close>

record ConnectionInfo =
  conn :: nat
  creationDate :: Date_t

type_synonym ConnectionList = "ConnectionInfo list"

text \<open>
  The pool's members (\<open>_connections\<close>, \<open>_inUseConnections\<close>, \<open>_lastUsedHosts\<close>,
  \<open>_lastCleanUpTime\<close>, \<open>_messagingPortTags\<close>) together with the free store the
  connection pointers point into. The two \<open>std::map\<close>s are association lists in key
  order, since the code iterates over them.
\<close>

record 'h ConnectionPool =
  connections :: "('h \<times> ConnectionList) list"
  inUseConnections :: ConnectionList
  lastUsedHosts :: "('h \<times> Date_t) list"
  lastCleanUpTime :: Date_t
  messagingPortTags :: int
  heap :: "'h Heap"
  allocated :: nat

text \<open>
  What a call can do: return a value, leave by an exception, stop the process in a
  failed \<open>invariant(...)\<close>, or run into undefined behaviour (a second \<open>delete\<close> of an
  object, a dereference of a dangling pointer or of \<open>end()\<close>). The first two carry the
  state the call leaves behind.
\<close>

datatype Exception =
    ConnectFailed
  | AuthenticationFailed
  | AuthError nat
  | ProbeError nat

datatype ('a, 's) outcome =
    Returns 'a 's
  | Throws Exception 's
  | InvariantFailure
  | Undefined

text \<open>
  The collaborators of \<open>acquireConnection\<close> that live outside the pool: what
  \<open>isStillConnected()\<close> answers for the object at an address (or the exception it
  throws), whether \<open>connect\<close> succeeds, the tag a newly constructed port carries, the
  authorization manager's \<open>isAuthEnabled()\<close>, \<open>isInternalAuthSet()\<close>, and the exception
  \<open>auth\<close> throws, if any.
\<close>

datatype ProbeResult = StillConnected | NotConnected | ProbeThrows nat

record Environment =
  isStillConnected :: "nat \<Rightarrow> ProbeResult"
  connectSucceeds :: bool
  newPortTag :: int
  isAuthEnabled :: bool
  isInternalAuthSet :: bool
  authThrows :: "nat option"

section \<open>Map and free-store primitives\<close>

text \<open>\<open>m[k] = v\<close> on a \<open>std::map\<close>: the entry for \<open>k\<close> is replaced or inserted in key order.\<close>

definition assign :: "'k::linorder \<Rightarrow> 'v \<Rightarrow> ('k \<times> 'v) list \<Rightarrow> ('k \<times> 'v) list" where
  "assign k v m = insort_key fst (k, v) (filter (\<lambda>e. fst e \<noteq> k) m)"

text \<open>\<open>delete p\<close>: undefined (\<open>None\<close>) unless \<open>p\<close> points at a live object.\<close>

definition deleteConn :: "nat \<Rightarrow> 'h Heap \<Rightarrow> 'h Heap option" where
  "deleteConn a hp = (case hp a of None \<Rightarrow> None | Some c \<Rightarrow> Some (hp(a := None)))"

section \<open>The pool's operations\<close>

text \<open>
  The constructor stores the tags; the containers start empty and \<open>_lastCleanUpTime\<close>
  is default-constructed, the epoch. The free store of a new run is empty.
\<close>

definition ConnectionPool_ctor :: "int \<Rightarrow> 'h ConnectionPool" where
  "ConnectionPool_ctor tags =
     \<lparr>connections = [], inUseConnections = [], lastUsedHosts = [],
      lastCleanUpTime = 0, messagingPortTags = tags, heap = Map.empty, allocated = 0\<rparr>"

definition shouldKeepConnection :: "Date_t \<Rightarrow> ConnectionInfo \<Rightarrow> bool" where
  "shouldKeepConnection now connInfo =
     (let expirationDate = Date_plus (creationDate connInfo) kMaxConnectionAge
      in if expirationDate \<le> now then False else True)"

text \<open>\<open>_destroyConnection_inlock(connList, iter)\<close>: delete the object, erase the node.\<close>

definition destroyConnection_inlock ::
  "ConnectionList \<Rightarrow> ConnectionInfo \<Rightarrow> 'h Heap \<Rightarrow> (ConnectionList \<times> 'h Heap) option" where
  "destroyConnection_inlock connList iter hp =
     (if iter \<notin> set connList then None
      else case deleteConn (conn iter) hp of
             None \<Rightarrow> None
           | Some hp' \<Rightarrow> Some (remove1 iter connList, hp'))"

text \<open>
  \<open>_cleanUpOlderThan_inlock(now, hostConns)\<close>, the overload on one list: the cursor
  walks the list; a kept node stays, any other is destroyed at the cursor.
\<close>

function cleanUpOlderThan_inlock_list ::
  "Date_t \<Rightarrow> ConnectionList \<Rightarrow> 'h Heap \<Rightarrow> (ConnectionList \<times> 'h Heap) option" where
  "cleanUpOlderThan_inlock_list now [] hp = Some ([], hp)"
| "cleanUpOlderThan_inlock_list now (ci # rest) hp =
     (if shouldKeepConnection now ci then
        (case cleanUpOlderThan_inlock_list now rest hp of
           None \<Rightarrow> None
         | Some (rest', hp') \<Rightarrow> Some (ci # rest', hp'))
      else
        (case destroyConnection_inlock (ci # rest) ci hp of
           None \<Rightarrow> None
         | Some (l, hp') \<Rightarrow> cleanUpOlderThan_inlock_list now l hp'))"
  by pat_completeness auto
termination
  by (relation "measure (\<lambda>(now, l, hp). length l)")
     (auto simp: destroyConnection_inlock_def split: option.splits)

text \<open>
  \<open>_cleanUpOlderThan_inlock(now)\<close>, the overload on the whole map: every list is
  cleaned in key order and an entry whose list is left empty is erased.
\<close>

fun cleanUpOlderThan_inlock_hosts ::
  "Date_t \<Rightarrow> ('h \<times> ConnectionList) list \<Rightarrow> 'h Heap \<Rightarrow>
     (('h \<times> ConnectionList) list \<times> 'h Heap) option" where
  "cleanUpOlderThan_inlock_hosts now [] hp = Some ([], hp)"
| "cleanUpOlderThan_inlock_hosts now ((host, hostConns) # rest) hp =
     (case cleanUpOlderThan_inlock_list now hostConns hp of
        None \<Rightarrow> None
      | Some (hostConns', hp') \<Rightarrow>
          (case cleanUpOlderThan_inlock_hosts now rest hp' of
             None \<Rightarrow> None
           | Some (rest', hp'') \<Rightarrow>
               Some (if hostConns' = [] then rest' else (host, hostConns') # rest', hp'')))"

definition cleanUpOlderThan_inlock ::
  "Date_t \<Rightarrow> 'h ConnectionPool \<Rightarrow> (unit, 'h ConnectionPool) outcome" where
  "cleanUpOlderThan_inlock now p =
     (case cleanUpOlderThan_inlock_hosts now (connections p) (heap p) of
        None \<Rightarrow> Undefined
      | Some (conns', hp') \<Rightarrow> Returns () (p\<lparr>connections := conns', heap := hp'\<rparr>))"

definition cleanUpOlderThan ::
  "Date_t \<Rightarrow> 'h ConnectionPool \<Rightarrow> (unit, 'h ConnectionPool) outcome" where
  "cleanUpOlderThan now p = cleanUpOlderThan_inlock now p"

text \<open>\<open>closeAllInUseConnections\<close>: \<open>iter->conn->port().shutdown()\<close> for every in-use node.\<close>

fun shutdownPorts :: "ConnectionList \<Rightarrow> 'h Heap \<Rightarrow> 'h Heap option" where
  "shutdownPorts [] hp = Some hp"
| "shutdownPorts (ci # rest) hp =
     (case hp (conn ci) of
        None \<Rightarrow> None
      | Some c \<Rightarrow> shutdownPorts rest (hp(conn ci \<mapsto> c\<lparr>portShutdown := True\<rparr>)))"

definition closeAllInUseConnections ::
  "'h ConnectionPool \<Rightarrow> (unit, 'h ConnectionPool) outcome" where
  "closeAllInUseConnections p =
     (case shutdownPorts (inUseConnections p) (heap p) of
        None \<Rightarrow> Undefined
      | Some hp' \<Rightarrow> Returns () (p\<lparr>heap := hp'\<rparr>))"

text \<open>
  The loop of \<open>_cleanUpStaleHosts_inlock\<close> over \<open>_lastUsedHosts\<close>. For a stale entry,
  \<open>connList\<close> is a copy of the list found in \<open>_connections\<close> (the map itself is only
  read, so it is a parameter that does not change); cleaning the copy deletes objects
  on the free store. \<open>find\<close> returning \<open>end()\<close> is dereferenced unchecked.
\<close>

fun cleanUpStaleHosts_loop ::
  "Date_t \<Rightarrow> Date_t \<Rightarrow> ('h \<times> ConnectionList) list \<Rightarrow> ('h \<times> Date_t) list \<Rightarrow> 'h Heap \<Rightarrow>
     (('h \<times> Date_t) list, 'h Heap) outcome" where
  "cleanUpStaleHosts_loop now lastCleanUp conns [] hp = Returns [] hp"
| "cleanUpStaleHosts_loop now lastCleanUp conns ((host, lastUsed) # rest) hp =
     (if lastUsed \<le> lastCleanUp then
        (case map_of conns host of
           None \<Rightarrow> Undefined
         | Some connList \<Rightarrow>
             (case cleanUpOlderThan_inlock_list now connList hp of
                None \<Rightarrow> Undefined
              | Some (connList', hp') \<Rightarrow>
                  if connList' \<noteq> [] then InvariantFailure
                  else (case cleanUpStaleHosts_loop now lastCleanUp conns rest hp' of
                          Returns rest' hp'' \<Rightarrow> Returns ((host, kNeverTooStale) # rest') hp''
                        | other \<Rightarrow> other)))
      else
        (case cleanUpStaleHosts_loop now lastCleanUp conns rest hp of
           Returns rest' hp'' \<Rightarrow> Returns ((host, lastUsed) # rest') hp''
         | other \<Rightarrow> other))"

definition cleanUpStaleHosts_inlock ::
  "Date_t \<Rightarrow> 'h ConnectionPool \<Rightarrow> (unit, 'h ConnectionPool) outcome" where
  "cleanUpStaleHosts_inlock now p =
     (if now > Date_plus (lastCleanUpTime p) kCleanUpInterval then
        (case cleanUpStaleHosts_loop now (lastCleanUpTime p) (connections p)
                (lastUsedHosts p) (heap p) of
           Returns lastUsed' hp' \<Rightarrow>
             Returns () (p\<lparr>lastUsedHosts := lastUsed', heap := hp', lastCleanUpTime := now\<rparr>)
         | Throws e hp' \<Rightarrow> Throws e (p\<lparr>heap := hp'\<rparr>)
         | InvariantFailure \<Rightarrow> InvariantFailure
         | Undefined \<Rightarrow> Undefined)
      else Returns () p)"

text \<open>
  The \<open>for\<close> loop of \<open>acquireConnection\<close>. \<open>Returns (Some candidate)\<close> is the
  \<open>return candidate\<close> inside the loop; \<open>Returns None\<close> is leaving the loop (its
  condition false, or \<open>break\<close>) towards the dial.
\<close>

function acquireConnection_loop ::
  "Environment \<Rightarrow> 'h::linorder \<Rightarrow> Date_t \<Rightarrow> Milliseconds \<Rightarrow> 'h ConnectionPool \<Rightarrow>
     (ConnectionInfo option, 'h ConnectionPool) outcome" where
  "acquireConnection_loop env target now timeout p =
     (case map_of (connections p) target of
        None \<Rightarrow> Returns None p
      | Some hostConns \<Rightarrow>
          (case cleanUpOlderThan_inlock_list now hostConns (heap p) of
             None \<Rightarrow> Undefined
           | Some (hostConns', hp') \<Rightarrow>
               (case hostConns' of
                  [] \<Rightarrow>
                    Returns None
                      (p\<lparr>connections := assign target [] (connections p),
                         heap := hp',
                         lastUsedHosts := assign target kNeverTooStale (lastUsedHosts p)\<rparr>)
                | candidate # rest \<Rightarrow>
                    (case hp' (conn candidate) of
                       None \<Rightarrow> Undefined
                     | Some c \<Rightarrow>
                         (case isStillConnected env (conn candidate) of
                            StillConnected \<Rightarrow>
                              Returns (Some candidate)
                                (p\<lparr>connections := assign target rest (connections p),
                                   inUseConnections := candidate # inUseConnections p,
                                   heap := hp'(conn candidate \<mapsto> c\<lparr>soTimeout := timeout\<rparr>)\<rparr>)
                          | ProbeThrows e \<Rightarrow>
                              (case destroyConnection_inlock
                                      (candidate # inUseConnections p) candidate hp' of
                                 None \<Rightarrow> Undefined
                               | Some (inUse', hp'') \<Rightarrow>
                                   Throws (ProbeError e)
                                     (p\<lparr>connections := assign target rest (connections p),
                                        inUseConnections := inUse',
                                        heap := hp''\<rparr>))
                          | NotConnected \<Rightarrow>
                              (case destroyConnection_inlock
                                      (candidate # inUseConnections p) candidate hp' of
                                 None \<Rightarrow> Undefined
                               | Some (inUse', hp'') \<Rightarrow>
                                   acquireConnection_loop env target now timeout
                                     (p\<lparr>connections := assign target rest (connections p),
                                        inUseConnections := inUse',
                                        heap := hp''\<rparr>)))))))"
  by pat_completeness auto
termination
proof (relation "measure (\<lambda>(env, target, now, timeout, p).
         length (case map_of (connections p) target of None \<Rightarrow> [] | Some l \<Rightarrow> l))",
       goal_cases)
  case 1
  show ?case by simp
next
  case (2 env target now timeout p hostConns x hostConns' hp' candidate rest c y inUse' hp'')
  have len: "length l' \<le> length l"
    if "cleanUpOlderThan_inlock_list t l h = Some (l', h')"
    for t l and h :: "'a Heap" and l' h'
    using that
  proof (induction t l h arbitrary: l' h' rule: cleanUpOlderThan_inlock_list.induct)
    case (1 now hp)
    then show ?case by simp
  next
    case (2 now ci rest hp)
    then show ?case
      by (fastforce simp: destroyConnection_inlock_def split: if_splits option.splits)
  qed
  have asg: "map_of (assign k v m) k = Some v" for k :: 'a and v :: ConnectionList and m
  proof -
    have "map_of (insort_key fst (k, v) xs) k = Some v" for xs :: "('a \<times> ConnectionList) list"
      by (induction xs) auto
    then show ?thesis by (simp add: assign_def)
  qed
  from 2 have "length (candidate # rest) \<le> length hostConns"
    using len by fastforce
  with 2 show ?case by (simp add: asg)
qed

text \<open>
  The part of \<open>acquireConnection\<close> after the loop: the dial of a new connection.
  The \<open>unique_ptr\<close> deletes the new object when \<open>uassert\<close> or \<open>auth\<close> throws,
  so only the count of allocations shows that it existed.
\<close>

definition acquireConnection_dial ::
  "Environment \<Rightarrow> 'h \<Rightarrow> Date_t \<Rightarrow> Milliseconds \<Rightarrow> 'h ConnectionPool \<Rightarrow>
     (ConnectionInfo, 'h ConnectionPool) outcome" where
  "acquireConnection_dial env target now timeout p =
     (let a = allocated p;
          p' = p\<lparr>allocated := Suc a\<rparr>
      in if \<not> connectSucceeds env then Throws ConnectFailed p'
         else if isAuthEnabled env \<and> \<not> isInternalAuthSet env
         then Throws AuthenticationFailed p'
         else (case (if isAuthEnabled env then authThrows env else None) of
                 Some e \<Rightarrow> Throws (AuthError e) p'
               | None \<Rightarrow>
                   (let ci = \<lparr>conn = a, creationDate = now\<rparr>
                    in Returns ci
                         (p'\<lparr>inUseConnections := ci # inUseConnections p',
                            heap := (heap p')(a \<mapsto>
                              \<lparr>serverHostAndPort = target,
                               soTimeout = timeout,
                               portTag = newPortTag env OR messagingPortTags p',
                               portShutdown = False\<rparr>)\<rparr>))))"

text \<open>
  \<open>acquireConnection\<close>: the stale-host sweep, the loop over the target's idle
  candidates, and the dial when the loop is left without a candidate.
\<close>

definition acquireConnection ::
  "Environment \<Rightarrow> 'h::linorder \<Rightarrow> Date_t \<Rightarrow> Milliseconds \<Rightarrow> 'h ConnectionPool \<Rightarrow>
     (ConnectionInfo, 'h ConnectionPool) outcome" where
  "acquireConnection env target now timeout p =
     (case cleanUpStaleHosts_inlock now p of
        Returns u p1 \<Rightarrow>
          (case acquireConnection_loop env target now timeout p1 of
             Returns (Some candidate) p2 \<Rightarrow> Returns candidate p2
           | Returns None p2 \<Rightarrow> acquireConnection_dial env target now timeout p2
           | Throws e p2 \<Rightarrow> Throws e p2
           | InvariantFailure \<Rightarrow> InvariantFailure
           | Undefined \<Rightarrow> Undefined)
      | Throws e p1 \<Rightarrow> Throws e p1
      | InvariantFailure \<Rightarrow> InvariantFailure
      | Undefined \<Rightarrow> Undefined)"

text \<open>
  \<open>releaseConnection(iter, now)\<close>. \<open>iter\<close> has to be an iterator into
  \<open>_inUseConnections\<close>. The endpoint is read from the connection object twice, before
  the list is cleaned and after the splice.
\<close>

definition releaseConnection ::
  "ConnectionInfo \<Rightarrow> Date_t \<Rightarrow> 'h::linorder ConnectionPool \<Rightarrow> (unit, 'h ConnectionPool) outcome" where
  "releaseConnection iter now p =
     (if iter \<notin> set (inUseConnections p) then Undefined
      else if \<not> shouldKeepConnection now iter then
        (case destroyConnection_inlock (inUseConnections p) iter (heap p) of
           None \<Rightarrow> Undefined
         | Some (inUse', hp') \<Rightarrow> Returns () (p\<lparr>inUseConnections := inUse', heap := hp'\<rparr>))
      else
        (case heap p (conn iter) of
           None \<Rightarrow> Undefined
         | Some c \<Rightarrow>
             (let host = serverHostAndPort c;
                  hostConns = (case map_of (connections p) host of None \<Rightarrow> [] | Some l \<Rightarrow> l)
              in case cleanUpOlderThan_inlock_list now hostConns (heap p) of
                   None \<Rightarrow> Undefined
                 | Some (hostConns', hp') \<Rightarrow>
                     (case hp' (conn iter) of
                        None \<Rightarrow> Undefined
                      | Some c' \<Rightarrow>
                          Returns ()
                            (p\<lparr>connections := assign host (iter # hostConns') (connections p),
                               inUseConnections := remove1 iter (inUseConnections p),
                               heap := hp',
                               lastUsedHosts :=
                                 assign (serverHostAndPort c') now (lastUsedHosts p)\<rparr>)))))"

definition destroyConnection ::
  "ConnectionInfo \<Rightarrow> 'h ConnectionPool \<Rightarrow> (unit, 'h ConnectionPool) outcome" where
  "destroyConnection iter p =
     (case destroyConnection_inlock (inUseConnections p) iter (heap p) of
        None \<Rightarrow> Undefined
      | Some (inUse', hp') \<Rightarrow> Returns () (p\<lparr>inUseConnections := inUse', heap := hp'\<rparr>))"

text \<open>The destructor: a last clean-up at \<open>Date_t::max()\<close> and the two emptiness invariants.\<close>

definition ConnectionPool_dtor :: "'h ConnectionPool \<Rightarrow> (unit, 'h ConnectionPool) outcome" where
  "ConnectionPool_dtor p =
     (case cleanUpOlderThan kNeverTooStale p of
        Returns u p' \<Rightarrow>
          if connections p' \<noteq> [] then InvariantFailure
          else if inUseConnections p' \<noteq> [] then InvariantFailure
          else Returns () p'
      | other \<Rightarrow> other)"

section \<open>\<open>ConnectionPool::ConnectionPtr\<close>\<close>

text \<open>
  The wrapper's members: \<open>_pool\<close> (here only whether it is non-null, there being one
  pool) and \<open>_connInfo\<close>. The constructor acquires; an exception leaves no object
  behind, so no destructor runs for it.
\<close>

record ConnectionPtr =
  pool :: bool
  connInfo :: ConnectionInfo

definition ConnectionPtr_ctor ::
  "Environment \<Rightarrow> 'h::linorder \<Rightarrow> Date_t \<Rightarrow> Milliseconds \<Rightarrow> 'h ConnectionPool \<Rightarrow>
     (ConnectionPtr, 'h ConnectionPool) outcome" where
  "ConnectionPtr_ctor env target now timeout p =
     (case acquireConnection env target now timeout p of
        Returns ci p' \<Rightarrow> Returns \<lparr>pool = True, connInfo = ci\<rparr> p'
      | Throws e p' \<Rightarrow> Throws e p'
      | InvariantFailure \<Rightarrow> InvariantFailure
      | Undefined \<Rightarrow> Undefined)"

definition ConnectionPtr_dtor ::
  "ConnectionPtr \<Rightarrow> 'h ConnectionPool \<Rightarrow> (unit, 'h ConnectionPool) outcome" where
  "ConnectionPtr_dtor cp p =
     (if pool cp then destroyConnection (connInfo cp) p else Returns () p)"

text \<open>\<open>done(now)\<close>; calling it on a wrapper whose \<open>_pool\<close> is null dereferences null.\<close>

definition ConnectionPtr_done ::
  "Date_t \<Rightarrow> ConnectionPtr \<Rightarrow> 'h::linorder ConnectionPool \<Rightarrow>
     (ConnectionPtr, 'h ConnectionPool) outcome" where
  "ConnectionPtr_done now cp p =
     (if \<not> pool cp then Undefined
      else case releaseConnection (connInfo cp) now p of
             Returns u p' \<Rightarrow> Returns (cp\<lparr>pool := False\<rparr>) p'
           | Throws e p' \<Rightarrow> Throws e p'
           | InvariantFailure \<Rightarrow> InvariantFailure
           | Undefined \<Rightarrow> Undefined)"

section \<open>Vocabulary of the properties\<close>

text \<open>All records held by idle lists, and the idle list of one endpoint.\<close>

definition idleRecords :: "'h ConnectionPool \<Rightarrow> ConnectionList" where
  "idleRecords p = concat (map snd (connections p))"

definition idleList :: "'h ConnectionPool \<Rightarrow> 'h \<Rightarrow> ConnectionList" where
  "idleList p host = (case map_of (connections p) host of None \<Rightarrow> [] | Some l \<Rightarrow> l)"

text \<open>The addresses of the records of a list that age-based clean-up at \<open>now\<close> destroys.\<close>

definition expired :: "Date_t \<Rightarrow> ConnectionList \<Rightarrow> nat set" where
  "expired now l = conn ` set (filter (\<lambda>ci. \<not> shouldKeepConnection now ci) l)"

text \<open>
  The free store after deleting the objects at the addresses \<open>A\<close>, and after shutting
  down the ports of the objects at the addresses \<open>A\<close>.
\<close>

definition freed :: "nat set \<Rightarrow> 'h Heap \<Rightarrow> 'h Heap" where
  "freed A hp = (\<lambda>a. if a \<in> A then None else hp a)"

definition portsShutDown :: "nat set \<Rightarrow> 'h Heap \<Rightarrow> 'h Heap" where
  "portsShutDown A hp =
     (\<lambda>a. if a \<in> A then map_option (\<lambda>c. c\<lparr>portShutdown := True\<rparr>) (hp a) else hp a)"

text \<open>
  A pool whose records own their connections: the pointers held by the idle lists and
  the in-use list are pairwise different and point at live objects.
\<close>

definition wellFormed :: "'h ConnectionPool \<Rightarrow> bool" where
  "wellFormed p \<longleftrightarrow>
     distinct (map conn (idleRecords p @ inUseConnections p)) \<and>
     (\<forall>ci \<in> set (idleRecords p @ inUseConnections p). heap p (conn ci) \<noteq> None)"

text \<open>
  \<open>reachable t p\<close>: the pool \<open>p\<close> is reached from a new pool by public calls whose
  \<open>now\<close> arguments are values of \<open>Date_t\<close> that never decrease, the latest being at
  most \<open>t\<close>. (\<open>cleanUpOlderThan\<close> may be called with any time: the destructor calls it
  with \<open>Date_t::max()\<close>.)
\<close>

inductive reachable :: "Date_t \<Rightarrow> 'h::linorder ConnectionPool \<Rightarrow> bool" where
  reach_new: "t \<le> kNeverTooStale \<Longrightarrow> reachable t (ConnectionPool_ctor tags)"
| reach_acquire:
    "reachable t p \<Longrightarrow> t \<le> now \<Longrightarrow> now \<le> kNeverTooStale \<Longrightarrow>
     acquireConnection env target now timeout p = Returns ci p' \<Longrightarrow> reachable now p'"
| reach_acquire_throws:
    "reachable t p \<Longrightarrow> t \<le> now \<Longrightarrow> now \<le> kNeverTooStale \<Longrightarrow>
     acquireConnection env target now timeout p = Throws e p' \<Longrightarrow> reachable now p'"
| reach_release:
    "reachable t p \<Longrightarrow> t \<le> now \<Longrightarrow> now \<le> kNeverTooStale \<Longrightarrow>
     releaseConnection iter now p = Returns u p' \<Longrightarrow> reachable now p'"
| reach_destroy:
    "reachable t p \<Longrightarrow> destroyConnection iter p = Returns u p' \<Longrightarrow> reachable t p'"
| reach_cleanUp:
    "reachable t p \<Longrightarrow> cleanUpOlderThan now p = Returns u p' \<Longrightarrow> reachable t p'"
| reach_closeAll:
    "reachable t p \<Longrightarrow> closeAllInUseConnections p = Returns u p' \<Longrightarrow> reachable t p'"

text \<open>
What a monotone clock gives (used for the stale-host sweep): the times are values of
\<open>Date_t\<close>, no record was created after \<open>t\<close>, and every record in the idle list of an
endpoint was created no later than the endpoint's entry in \<open>_lastUsedHosts\<close>.
\<close>

definition timeInvariant :: "Date_t \<Rightarrow> 'h ConnectionPool \<Rightarrow> bool" where
  "timeInvariant t p \<longleftrightarrow>
     t \<le> kNeverTooStale \<and> lastCleanUpTime p \<le> kNeverTooStale \<and>
     (\<forall>ci \<in> set (inUseConnections p). creationDate ci \<le> t) \<and>
     (\<forall>(host, l) \<in> set (connections p). \<forall>ci \<in> set l. creationDate ci \<le> t) \<and>
     (\<forall>(host, lastUsed) \<in> set (lastUsedHosts p). \<forall>(host', l) \<in> set (connections p).
        host' = host \<longrightarrow> (\<forall>ci \<in> set l. creationDate ci \<le> lastUsed))"

text \<open>
  \<open>expiresInRange ci\<close>: the creation date of the record and its expiration date
  \<open>creationDate + kMaxConnectionAge\<close> are both values of \<open>Date_t\<close>, so the sum in
  \<open>_shouldKeepConnection\<close> does not pass \<open>Date_t::max()\<close>.
\<close>

definition expiresInRange :: "ConnectionInfo \<Rightarrow> bool" where
  "expiresInRange ci \<longleftrightarrow>
     isDate (creationDate ci) \<and> isDate (creationDate ci + kMaxConnectionAge)"

section \<open>Sample runs\<close>

text \<open>
Concrete environments, records and pools. Endpoints are the numbers 1 and 2, every
timeout is 500 ms, the pool's tag is 0. \<open>stateA1\<close> to \<open>stateA4\<close> follow
acquire(1) at 1000, release at 1000, acquire(2) at 400000, acquire(2) at 800000;
\<open>stateB3\<close>, \<open>stateB4\<close> follow \<open>stateA2\<close> by cleanUpOlderThan(31000) and
acquire(2) at 400000; \<open>stateC3\<close> to \<open>stateC6\<close> follow \<open>stateA2\<close> by acquire(1) at 2000,
acquire(2) at 2000, release at 2000 and cleanUpOlderThan(0); \<open>stateD1\<close>, \<open>stateD2\<close> are
acquire(1) at 280000 followed by a release at 0; \<open>stateE1\<close> is acquire(1) at
\<open>Date_t::max()\<close>, followed in \<open>stateE1_destroyed\<close> by a release at the same time and
in \<open>stateE2\<close>, \<open>stateE3\<close> by a release at the least date and cleanUpOlderThan(0);
\<open>stateF2\<close> to \<open>stateF4\<close> follow \<open>stateA1\<close> by acquire(1) at 1000 and the release
of both records at 1000, which leaves two idle records for endpoint 1; \<open>stateN1\<close>,
\<open>stateN2\<close> are acquire(1) and release, both at 250000 ms before \<open>Date_t::max()\<close>.
The lemmas \<open>run_...\<close> below check every step against the operations.
\<close>

definition exampleEnv :: Environment where
  "exampleEnv = \<lparr>isStillConnected = (\<lambda>a. StillConnected), connectSucceeds = True,
     newPortTag = 0, isAuthEnabled = False, isInternalAuthSet = False, authThrows = None\<rparr>"

definition deadEnv :: Environment where
  "deadEnv = exampleEnv\<lparr>isStillConnected := (\<lambda>a. NotConnected)\<rparr>"

definition throwingEnv :: Environment where
  "throwingEnv = exampleEnv\<lparr>isStillConnected := (\<lambda>a. ProbeThrows 7)\<rparr>"

definition client :: "nat \<Rightarrow> nat DBClientConnection" where
  "client host = \<lparr>serverHostAndPort = host, soTimeout = 500, portTag = 0, portShutdown = False\<rparr>"

definition recA :: ConnectionInfo where "recA = \<lparr>conn = 0, creationDate = 1000\<rparr>"
definition recB :: ConnectionInfo where "recB = \<lparr>conn = 1, creationDate = 400000\<rparr>"
definition recC :: ConnectionInfo where "recC = \<lparr>conn = 2, creationDate = 800000\<rparr>"
definition recD :: ConnectionInfo where "recD = \<lparr>conn = 1, creationDate = 2000\<rparr>"
definition recE :: ConnectionInfo where "recE = \<lparr>conn = 0, creationDate = 280000\<rparr>"
definition recF :: ConnectionInfo where "recF = \<lparr>conn = 1, creationDate = 50000\<rparr>"

definition stateA1 :: "nat ConnectionPool" where
  "stateA1 = \<lparr>connections = [], inUseConnections = [recA], lastUsedHosts = [],
      lastCleanUpTime = 0, messagingPortTags = 0, heap = [0 \<mapsto> client 1], allocated = 1\<rparr>"

definition stateA2 :: "nat ConnectionPool" where
  "stateA2 = \<lparr>connections = [(1, [recA])], inUseConnections = [], lastUsedHosts = [(1, 1000)],
      lastCleanUpTime = 0, messagingPortTags = 0, heap = [0 \<mapsto> client 1], allocated = 1\<rparr>"

definition stateA3 :: "nat ConnectionPool" where
  "stateA3 = \<lparr>connections = [(1, [recA])], inUseConnections = [recB], lastUsedHosts = [(1, 1000)],
      lastCleanUpTime = 400000, messagingPortTags = 0,
      heap = [0 \<mapsto> client 1, 1 \<mapsto> client 2], allocated = 2\<rparr>"

definition stateA4 :: "nat ConnectionPool" where
  "stateA4 = \<lparr>connections = [(1, [recA])], inUseConnections = [recC, recB],
      lastUsedHosts = [(1, kNeverTooStale)], lastCleanUpTime = 800000, messagingPortTags = 0,
      heap = [1 \<mapsto> client 2, 2 \<mapsto> client 2], allocated = 3\<rparr>"

definition stateB3 :: "nat ConnectionPool" where
  "stateB3 = \<lparr>connections = [], inUseConnections = [], lastUsedHosts = [(1, 1000)],
      lastCleanUpTime = 0, messagingPortTags = 0, heap = Map.empty, allocated = 1\<rparr>"

definition stateB4 :: "nat ConnectionPool" where
  "stateB4 = \<lparr>connections = [], inUseConnections = [recB], lastUsedHosts = [(1, 1000)],
      lastCleanUpTime = 400000, messagingPortTags = 0, heap = [1 \<mapsto> client 2], allocated = 2\<rparr>"

definition stateB3_dialed :: "nat ConnectionPool" where
  "stateB3_dialed = \<lparr>connections = [], inUseConnections = [recF], lastUsedHosts = [(1, 1000)],
      lastCleanUpTime = 0, messagingPortTags = 0, heap = [1 \<mapsto> client 1], allocated = 2\<rparr>"

definition stateA2_probed :: "nat ConnectionPool" where
  "stateA2_probed = \<lparr>connections = [(1, [])], inUseConnections = [], lastUsedHosts = [(1, 1000)],
      lastCleanUpTime = 0, messagingPortTags = 0, heap = Map.empty, allocated = 1\<rparr>"

definition stateA3_swept :: "nat ConnectionPool" where
  "stateA3_swept = \<lparr>connections = [(1, [recA])], inUseConnections = [recB],
      lastUsedHosts = [(1, kNeverTooStale)], lastCleanUpTime = 800000, messagingPortTags = 0,
      heap = [1 \<mapsto> client 2], allocated = 2\<rparr>"

definition stateC6 :: "nat ConnectionPool" where
  "stateC6 = \<lparr>connections = [(2, [recD])], inUseConnections = [recA],
      lastUsedHosts = [(1, 1000), (2, 2000)],
      lastCleanUpTime = 0, messagingPortTags = 0,
      heap = [0 \<mapsto> client 1, 1 \<mapsto> client 2], allocated = 2\<rparr>"

definition stateC3 :: "nat ConnectionPool" where
  "stateC3 = \<lparr>connections = [(1, [])], inUseConnections = [recA], lastUsedHosts = [(1, 1000)],
      lastCleanUpTime = 0, messagingPortTags = 0, heap = [0 \<mapsto> client 1], allocated = 1\<rparr>"

definition stateC4 :: "nat ConnectionPool" where
  "stateC4 = \<lparr>connections = [(1, [])], inUseConnections = [recD, recA], lastUsedHosts = [(1, 1000)],
      lastCleanUpTime = 0, messagingPortTags = 0,
      heap = [0 \<mapsto> client 1, 1 \<mapsto> client 2], allocated = 2\<rparr>"

definition stateC5 :: "nat ConnectionPool" where
  "stateC5 = \<lparr>connections = [(1, []), (2, [recD])], inUseConnections = [recA],
      lastUsedHosts = [(1, 1000), (2, 2000)],
      lastCleanUpTime = 0, messagingPortTags = 0,
      heap = [0 \<mapsto> client 1, 1 \<mapsto> client 2], allocated = 2\<rparr>"

definition stateD1 :: "nat ConnectionPool" where
  "stateD1 = \<lparr>connections = [], inUseConnections = [recE], lastUsedHosts = [],
      lastCleanUpTime = 0, messagingPortTags = 0, heap = [0 \<mapsto> client 1], allocated = 1\<rparr>"

definition stateD2 :: "nat ConnectionPool" where
  "stateD2 = \<lparr>connections = [(1, [recE])], inUseConnections = [], lastUsedHosts = [(1, 0)],
      lastCleanUpTime = 0, messagingPortTags = 0, heap = [0 \<mapsto> client 1], allocated = 1\<rparr>"

definition stateA1_destroyed :: "nat ConnectionPool" where
  "stateA1_destroyed = \<lparr>connections = [], inUseConnections = [], lastUsedHosts = [],
      lastCleanUpTime = 0, messagingPortTags = 0, heap = Map.empty, allocated = 1\<rparr>"

definition stateA2_emptied :: "nat ConnectionPool" where
  "stateA2_emptied = \<lparr>connections = [(1, [])], inUseConnections = [],
      lastUsedHosts = [(1, kNeverTooStale)],
      lastCleanUpTime = 0, messagingPortTags = 0, heap = Map.empty, allocated = 1\<rparr>"

definition recG :: ConnectionInfo where
  "recG = \<lparr>conn = 0, creationDate = kNeverTooStale\<rparr>"

definition stateE1 :: "nat ConnectionPool" where
  "stateE1 = \<lparr>connections = [], inUseConnections = [recG], lastUsedHosts = [],
      lastCleanUpTime = kNeverTooStale, messagingPortTags = 0, heap = [0 \<mapsto> client 1],
      allocated = 1\<rparr>"

definition stateE1_destroyed :: "nat ConnectionPool" where
  "stateE1_destroyed = \<lparr>connections = [], inUseConnections = [], lastUsedHosts = [],
      lastCleanUpTime = kNeverTooStale, messagingPortTags = 0, heap = Map.empty,
      allocated = 1\<rparr>"

definition stateE2 :: "nat ConnectionPool" where
  "stateE2 = \<lparr>connections = [(1, [recG])], inUseConnections = [],
      lastUsedHosts = [(1, - 9223372036854775808)],
      lastCleanUpTime = kNeverTooStale, messagingPortTags = 0, heap = [0 \<mapsto> client 1],
      allocated = 1\<rparr>"

definition stateE3 :: "nat ConnectionPool" where
  "stateE3 = \<lparr>connections = [], inUseConnections = [],
      lastUsedHosts = [(1, - 9223372036854775808)],
      lastCleanUpTime = kNeverTooStale, messagingPortTags = 0, heap = Map.empty,
      allocated = 1\<rparr>"

definition reuseEnv :: Environment where
  "reuseEnv = exampleEnv\<lparr>isStillConnected := (\<lambda>a. if a = 1 then NotConnected else StillConnected)\<rparr>"

definition mixedEnv :: Environment where
  "mixedEnv = exampleEnv\<lparr>isStillConnected := (\<lambda>a. if a = 1 then NotConnected else ProbeThrows 7)\<rparr>"

definition recH :: ConnectionInfo where "recH = \<lparr>conn = 1, creationDate = 1000\<rparr>"

definition stateF2 :: "nat ConnectionPool" where
  "stateF2 = \<lparr>connections = [], inUseConnections = [recH, recA], lastUsedHosts = [],
      lastCleanUpTime = 0, messagingPortTags = 0,
      heap = [0 \<mapsto> client 1, 1 \<mapsto> client 1], allocated = 2\<rparr>"

definition stateF3 :: "nat ConnectionPool" where
  "stateF3 = \<lparr>connections = [(1, [recA])], inUseConnections = [recH],
      lastUsedHosts = [(1, 1000)], lastCleanUpTime = 0, messagingPortTags = 0,
      heap = [0 \<mapsto> client 1, 1 \<mapsto> client 1], allocated = 2\<rparr>"

definition stateF4 :: "nat ConnectionPool" where
  "stateF4 = \<lparr>connections = [(1, [recH, recA])], inUseConnections = [],
      lastUsedHosts = [(1, 1000)], lastCleanUpTime = 0, messagingPortTags = 0,
      heap = [0 \<mapsto> client 1, 1 \<mapsto> client 1], allocated = 2\<rparr>"

definition stateF4_thrown :: "nat ConnectionPool" where
  "stateF4_thrown = \<lparr>connections = [(1, [])], inUseConnections = [],
      lastUsedHosts = [(1, 1000)], lastCleanUpTime = 0, messagingPortTags = 0,
      heap = Map.empty, allocated = 2\<rparr>"

definition stateF4_reused :: "nat ConnectionPool" where
  "stateF4_reused = \<lparr>connections = [(1, [])], inUseConnections = [recA],
      lastUsedHosts = [(1, 1000)], lastCleanUpTime = 0, messagingPortTags = 0,
      heap = [0 \<mapsto> client 1], allocated = 2\<rparr>"

definition stateF4_emptied :: "nat ConnectionPool" where
  "stateF4_emptied = \<lparr>connections = [(1, [])], inUseConnections = [],
      lastUsedHosts = [(1, kNeverTooStale)], lastCleanUpTime = 0, messagingPortTags = 0,
      heap = Map.empty, allocated = 2\<rparr>"

definition recN :: ConnectionInfo where
  "recN = \<lparr>conn = 0, creationDate = 9223372036854525807\<rparr>"

definition stateN1 :: "nat ConnectionPool" where
  "stateN1 = \<lparr>connections = [], inUseConnections = [recN], lastUsedHosts = [],
      lastCleanUpTime = 9223372036854525807, messagingPortTags = 0,
      heap = [0 \<mapsto> client 1], allocated = 1\<rparr>"

definition stateN2 :: "nat ConnectionPool" where
  "stateN2 = \<lparr>connections = [(1, [recN])], inUseConnections = [],
      lastUsedHosts = [(1, 9223372036854525807)],
      lastCleanUpTime = 9223372036854525807, messagingPortTags = 0,
      heap = [0 \<mapsto> client 1], allocated = 1\<rparr>"

section \<open>Auxiliary facts\<close>

declare acquireConnection_loop.simps [simp del]

declare cleanUpOlderThan_inlock_list.simps(2) [simp del]

lemmas run_defs = exampleEnv_def deadEnv_def throwingEnv_def client_def
  recA_def recB_def recC_def recD_def recE_def recF_def
  stateA1_def stateA2_def stateA3_def stateA4_def stateB3_def stateB4_def
  stateC3_def stateC4_def stateC5_def stateD1_def stateD2_def
  stateB3_dialed_def stateA2_probed_def stateA3_swept_def stateC6_def stateA1_destroyed_def stateA2_emptied_def
  recG_def stateE1_def stateE1_destroyed_def stateE2_def stateE3_def
  reuseEnv_def mixedEnv_def recH_def stateF2_def stateF3_def stateF4_def
  stateF4_thrown_def stateF4_reused_def stateF4_emptied_def recN_def stateN1_def stateN2_def

lemmas eval_defs = acquireConnection_def acquireConnection_dial_def cleanUpStaleHosts_inlock_def
  acquireConnection_loop.simps cleanUpOlderThan_inlock_list.simps(2)
  releaseConnection_def destroyConnection_def destroyConnection_inlock_def deleteConn_def
  shouldKeepConnection_def Date_plus_def kCleanUpInterval_def kMaxConnectionAge_def
  kNeverTooStale_def
  assign_def cleanUpOlderThan_def cleanUpOlderThan_inlock_def ConnectionPool_ctor_def Let_def

subsection \<open>Map assignment and list clean-up\<close>

lemma map_of_insort_key_fresh:
  "k \<notin> fst ` set xs \<Longrightarrow> map_of (insort_key fst (k, v) xs) = (map_of xs)(k \<mapsto> v)"
  by (induction xs) (auto simp: fun_upd_twist)

lemma map_of_filter_other:
  "map_of (filter (\<lambda>e. fst e \<noteq> k) m) = (map_of m)(k := None)"
  by (induction m) auto

lemma map_of_assign: "map_of (assign k v m) = (map_of m)(k \<mapsto> v)"
proof -
  have "k \<notin> fst ` set (filter (\<lambda>e. fst e \<noteq> k) m)" by auto
  then show ?thesis
    by (simp add: assign_def map_of_insort_key_fresh map_of_filter_other)
qed

lemma set_assign: "set (assign k v m) = insert (k, v) {e \<in> set m. fst e \<noteq> k}"
  by (auto simp: assign_def set_insort_key)

lemma cleanUp_list_keep:
  "shouldKeepConnection now ci \<Longrightarrow>
   cleanUpOlderThan_inlock_list now (ci # rest) hp =
     (case cleanUpOlderThan_inlock_list now rest hp of
        None \<Rightarrow> None
      | Some (rest', hp') \<Rightarrow> Some (ci # rest', hp'))"
  by (simp add: cleanUpOlderThan_inlock_list.simps(2))

lemma cleanUp_list_drop:
  "\<not> shouldKeepConnection now ci \<Longrightarrow>
   cleanUpOlderThan_inlock_list now (ci # rest) hp =
     (case hp (conn ci) of
        None \<Rightarrow> None
      | Some c \<Rightarrow> cleanUpOlderThan_inlock_list now rest (hp(conn ci := None)))"
  by (simp add: cleanUpOlderThan_inlock_list.simps(2) destroyConnection_inlock_def
        deleteConn_def split: option.splits)

lemma expired_Nil [simp]: "expired now [] = {}"
  by (simp add: expired_def)

lemma expired_Cons:
  "expired now (ci # l) =
     (if shouldKeepConnection now ci then expired now l else insert (conn ci) (expired now l))"
  by (auto simp: expired_def)

lemma expired_append: "expired now (xs @ ys) = expired now xs \<union> expired now ys"
  by (auto simp: expired_def)

lemma expired_subset: "expired now l \<subseteq> conn ` set l"
  by (auto simp: expired_def)

lemma cleanUp_list_Some:
  "cleanUpOlderThan_inlock_list now l hp = Some (l', hp') \<Longrightarrow>
   l' = filter (shouldKeepConnection now) l \<and>
   hp' = freed (expired now l) hp"
proof (induction l arbitrary: hp l' hp')
  case Nil
  then show ?case by (simp add: freed_def)
next
  case (Cons ci rest)
  show ?case
  proof (cases "shouldKeepConnection now ci")
    case True
    with Cons.prems obtain r h where
      r: "cleanUpOlderThan_inlock_list now rest hp = Some (r, h)" and l': "l' = ci # r" and h: "hp' = h"
      by (auto simp: cleanUp_list_keep split: option.splits)
    from Cons.IH [OF r] True l' h show ?thesis by (simp add: expired_Cons)
  next
    case False
    with Cons.prems obtain c where
      c: "hp (conn ci) = Some c" and
      r: "cleanUpOlderThan_inlock_list now rest (hp(conn ci := None)) = Some (l', hp')"
      by (auto simp: cleanUp_list_drop split: option.splits)
    from Cons.IH [OF r] False show ?thesis by (auto simp: expired_Cons freed_def)
  qed
qed

lemma cleanUp_list_defined:
  "distinct (map conn l) \<Longrightarrow> \<forall>ci \<in> set l. hp (conn ci) \<noteq> None \<Longrightarrow>
   cleanUpOlderThan_inlock_list now l hp \<noteq> None"
proof (induction l arbitrary: hp)
  case Nil
  then show ?case by simp
next
  case (Cons ci rest)
  show ?case
  proof (cases "shouldKeepConnection now ci")
    case True
    with Cons show ?thesis by (auto simp: cleanUp_list_keep split: option.splits)
  next
    case False
    have "(hp(conn ci := None)) (conn r) \<noteq> None" if r: "r \<in> set rest" for r
    proof -
      from r Cons.prems(1) have "conn r \<noteq> conn ci"
        by (metis distinct.simps(2) image_eqI list.simps(9) set_map)
      moreover from r Cons.prems(2) have "hp (conn r) \<noteq> None" by simp
      ultimately show ?thesis by simp
    qed
    then have live: "\<forall>r \<in> set rest. (hp(conn ci := None)) (conn r) \<noteq> None" by blast
    from Cons.prems have d: "distinct (map conn rest)" by simp
    have "cleanUpOlderThan_inlock_list now rest (hp(conn ci := None)) \<noteq> None"
      by (rule Cons.IH [OF d live])
    moreover from Cons.prems(2) obtain c where "hp (conn ci) = Some c" by auto
    ultimately show ?thesis using False by (simp add: cleanUp_list_drop)
  qed
qed

lemma cleanUp_list_wf:
  assumes "distinct (map conn l)" "\<forall>ci \<in> set l. hp (conn ci) \<noteq> None"
  shows "cleanUpOlderThan_inlock_list now l hp =
           Some (filter (shouldKeepConnection now) l,
                 freed (expired now l) hp)"
proof -
  from cleanUp_list_defined [OF assms] obtain l' hp' where
    "cleanUpOlderThan_inlock_list now l hp = Some (l', hp')" by fastforce
  with cleanUp_list_Some [OF this] show ?thesis by simp
qed

lemma cleanUp_hosts_Some:
  "cleanUpOlderThan_inlock_hosts now m hp = Some (m', hp') \<Longrightarrow>
   m' = filter (\<lambda>e. snd e \<noteq> []) (map (\<lambda>e. (fst e, filter (shouldKeepConnection now) (snd e))) m) \<and>
   hp' = freed (expired now (concat (map snd m))) hp"
proof (induction m arbitrary: hp m' hp')
  case Nil
  then show ?case by (simp add: freed_def)
next
  case (Cons e rest)
  obtain host l where e: "e = (host, l)" by (cases e)
  from Cons.prems e obtain l1 h1 r h2 where
    l1: "cleanUpOlderThan_inlock_list now l hp = Some (l1, h1)" and
    r: "cleanUpOlderThan_inlock_hosts now rest h1 = Some (r, h2)" and
    m': "m' = (if l1 = [] then r else (host, l1) # r)" and h: "hp' = h2"
    by (auto split: option.splits)
  from cleanUp_list_Some [OF l1] Cons.IH [OF r] e m' h show ?case
    by (auto simp: expired_append freed_def)
qed

lemma cleanUp_hosts_defined:
  "distinct (map conn (concat (map snd m))) \<Longrightarrow>
   \<forall>ci \<in> set (concat (map snd m)). hp (conn ci) \<noteq> None \<Longrightarrow>
   cleanUpOlderThan_inlock_hosts now m hp \<noteq> None"
proof (induction m arbitrary: hp)
  case Nil
  then show ?case by simp
next
  case (Cons e rest)
  obtain host l where e: "e = (host, l)" by (cases e)
  from Cons.prems e have dl: "distinct (map conn l)" and ll: "\<forall>ci \<in> set l. hp (conn ci) \<noteq> None"
    by auto
  note l1 = cleanUp_list_wf [OF dl ll, of now]
  let ?h1 = "freed (expired now l) hp"
  from Cons.prems e expired_subset [of now l]
  have "\<forall>ci \<in> set (concat (map snd rest)). ?h1 (conn ci) \<noteq> None"
    by (fastforce simp: freed_def)
  moreover from Cons.prems e have "distinct (map conn (concat (map snd rest)))" by auto
  ultimately have "cleanUpOlderThan_inlock_hosts now rest ?h1 \<noteq> None"
    by (rule Cons.IH [rotated])
  with l1 e show ?case by (auto split: option.splits)
qed

lemma shutdownPorts_live:
  "\<forall>ci \<in> set l. hp (conn ci) \<noteq> None \<Longrightarrow>
   shutdownPorts l hp = Some (portsShutDown (conn ` set l) hp)"
proof (induction l arbitrary: hp)
  case Nil
  then show ?case by (simp add: portsShutDown_def)
next
  case (Cons ci rest)
  from Cons.prems obtain c where c: "hp (conn ci) = Some c" by auto
  let ?h1 = "hp(conn ci \<mapsto> c\<lparr>portShutdown := True\<rparr>)"
  from Cons.prems have "\<forall>r \<in> set rest. ?h1 (conn r) \<noteq> None" by simp
  from Cons.IH [OF this]
  have "shutdownPorts rest ?h1 = Some (portsShutDown (conn ` set rest) ?h1)" .
  moreover have "portsShutDown (conn ` set rest) ?h1 = portsShutDown (conn ` set (ci # rest)) hp"
    using c by (auto simp: portsShutDown_def fun_eq_iff)
  ultimately show ?case using c by simp
qed

lemma distinct_conn_member:
  "(host, l) \<in> set m \<Longrightarrow> distinct (map conn (concat (map snd m))) \<Longrightarrow> distinct (map conn l)"
  by (induction m) auto

lemma idleList_subset: "set (idleList p host) \<subseteq> set (idleRecords p)"
proof (cases "map_of (connections p) host")
  case None
  then show ?thesis by (simp add: idleList_def)
next
  case (Some l)
  then have "(host, l) \<in> set (connections p)" by (rule map_of_SomeD)
  then have "set l \<subseteq> set (idleRecords p)" by (force simp: idleRecords_def)
  with Some show ?thesis by (simp add: idleList_def)
qed

lemma idleList_distinct:
  assumes "distinct (map conn (idleRecords p))"
  shows "distinct (map conn (idleList p host))"
proof (cases "map_of (connections p) host")
  case None
  then show ?thesis by (simp add: idleList_def)
next
  case (Some l)
  then have "(host, l) \<in> set (connections p)" by (rule map_of_SomeD)
  from distinct_conn_member [OF this] assms have "distinct (map conn l)"
    by (simp add: idleRecords_def)
  with Some show ?thesis by (simp add: idleList_def)
qed

lemma destroy_inlock_member:
  "iter \<in> set l \<Longrightarrow> hp (conn iter) = Some c \<Longrightarrow>
   destroyConnection_inlock l iter hp = Some (remove1 iter l, hp(conn iter := None))"
  by (simp add: destroyConnection_inlock_def deleteConn_def)

lemma freed_empty [simp]: "freed {} hp = hp"
  by (simp add: freed_def)

lemma freed_insert: "freed (insert a A) hp = (freed A hp)(a := None)"
  by (auto simp: freed_def fun_eq_iff)

subsection \<open>One turn of the loop of \<open>acquireConnection\<close>\<close>

lemma loop_absent:
  "map_of (connections p) target = None \<Longrightarrow>
   acquireConnection_loop env target now timeout p = Returns None p"
  by (subst acquireConnection_loop.simps) simp

lemma loop_empty:
  "map_of (connections p) target = Some hostConns \<Longrightarrow>
   cleanUpOlderThan_inlock_list now hostConns (heap p) = Some ([], hp') \<Longrightarrow>
   acquireConnection_loop env target now timeout p =
     Returns None
       (p\<lparr>connections := assign target [] (connections p), heap := hp',
          lastUsedHosts := assign target kNeverTooStale (lastUsedHosts p)\<rparr>)"
  by (subst acquireConnection_loop.simps) simp

lemma loop_connected:
  "map_of (connections p) target = Some hostConns \<Longrightarrow>
   cleanUpOlderThan_inlock_list now hostConns (heap p) = Some (candidate # rest, hp') \<Longrightarrow>
   hp' (conn candidate) = Some c \<Longrightarrow>
   isStillConnected env (conn candidate) = StillConnected \<Longrightarrow>
   acquireConnection_loop env target now timeout p =
     Returns (Some candidate)
       (p\<lparr>connections := assign target rest (connections p),
          inUseConnections := candidate # inUseConnections p,
          heap := hp'(conn candidate \<mapsto> c\<lparr>soTimeout := timeout\<rparr>)\<rparr>)"
  by (subst acquireConnection_loop.simps) simp

lemma loop_dead:
  "map_of (connections p) target = Some hostConns \<Longrightarrow>
   cleanUpOlderThan_inlock_list now hostConns (heap p) = Some (candidate # rest, hp') \<Longrightarrow>
   hp' (conn candidate) = Some c \<Longrightarrow>
   isStillConnected env (conn candidate) = NotConnected \<Longrightarrow>
   acquireConnection_loop env target now timeout p =
     acquireConnection_loop env target now timeout
       (p\<lparr>connections := assign target rest (connections p),
          inUseConnections := inUseConnections p,
          heap := hp'(conn candidate := None)\<rparr>)"
  by (subst acquireConnection_loop.simps)
     (simp add: destroyConnection_inlock_def deleteConn_def)

lemma loop_throws:
  "map_of (connections p) target = Some hostConns \<Longrightarrow>
   cleanUpOlderThan_inlock_list now hostConns (heap p) = Some (candidate # rest, hp') \<Longrightarrow>
   hp' (conn candidate) = Some c \<Longrightarrow>
   isStillConnected env (conn candidate) = ProbeThrows e \<Longrightarrow>
   acquireConnection_loop env target now timeout p =
     Throws (ProbeError e)
       (p\<lparr>connections := assign target rest (connections p),
          inUseConnections := inUseConnections p,
          heap := hp'(conn candidate := None)\<rparr>)"
  by (subst acquireConnection_loop.simps)
     (simp add: destroyConnection_inlock_def deleteConn_def)

text \<open>A shape lemma: every way the loop can unfold once.\<close>

lemma loop_cases:
  obtains
    (absent) "map_of (connections p) target = None"
  | (undefined) "acquireConnection_loop env target now timeout p = Undefined"
  | (empty) hostConns hp' where "map_of (connections p) target = Some hostConns"
      "cleanUpOlderThan_inlock_list now hostConns (heap p) = Some ([], hp')"
  | (candidate) hostConns hp' candidate rest c where "map_of (connections p) target = Some hostConns"
      "cleanUpOlderThan_inlock_list now hostConns (heap p) = Some (candidate # rest, hp')"
      "hp' (conn candidate) = Some c"
proof (cases "map_of (connections p) target")
  case None
  then show ?thesis by (rule absent)
next
  case (Some hostConns)
  show ?thesis
  proof (cases "cleanUpOlderThan_inlock_list now hostConns (heap p)")
    case None
    with Some have "acquireConnection_loop env target now timeout p = Undefined"
      by (subst acquireConnection_loop.simps) simp
    then show ?thesis by (rule undefined)
  next
    case (Some r)
    obtain l' hp' where r: "r = (l', hp')" by (cases r)
    show ?thesis
    proof (cases l')
      case Nil
      with Some r \<open>map_of (connections p) target = Some hostConns\<close> show ?thesis
        by (auto intro: empty)
    next
      case (Cons candidate rest)
      show ?thesis
      proof (cases "hp' (conn candidate)")
        case None
        with Cons Some r \<open>map_of (connections p) target = Some hostConns\<close>
        have "acquireConnection_loop env target now timeout p = Undefined"
          by (subst acquireConnection_loop.simps) simp
        then show ?thesis by (rule undefined)
      next
        case (Some c)
        with Cons r \<open>cleanUpOlderThan_inlock_list now hostConns (heap p) = Some r\<close>
          \<open>map_of (connections p) target = Some hostConns\<close>
        show ?thesis by (auto intro: candidate)
      qed
    qed
  qed
qed

lemma idleList_assign [simp]:
  "idleList (p\<lparr>connections := assign target l (connections p)\<rparr>) target = l"
  by (simp add: idleList_def map_of_assign)

lemma loop_induct [case_names step]:
  fixes P :: "'h::linorder ConnectionPool \<Rightarrow> bool"
  assumes step: "\<And>p. (\<And>hostConns hp' candidate rest c.
      map_of (connections p) target = Some hostConns \<Longrightarrow>
      cleanUpOlderThan_inlock_list now hostConns (heap p) = Some (candidate # rest, hp') \<Longrightarrow>
      hp' (conn candidate) = Some c \<Longrightarrow>
      isStillConnected env (conn candidate) = NotConnected \<Longrightarrow>
      P (p\<lparr>connections := assign target rest (connections p),
           heap := hp'(conn candidate := None)\<rparr>)) \<Longrightarrow> P p"
  shows "P p"
proof (induction "length (idleList p target)" arbitrary: p rule: less_induct)
  case less
  show ?case
  proof (rule step)
    fix hostConns hp' candidate rest c
    assume m: "map_of (connections p) target = Some hostConns"
      and cl: "cleanUpOlderThan_inlock_list now hostConns (heap p) = Some (candidate # rest, hp')"
    let ?p' = "p\<lparr>connections := assign target rest (connections p),
                  heap := hp'(conn candidate := None)\<rparr>"
    from cleanUp_list_Some [OF cl] have "length (candidate # rest) \<le> length hostConns"
      by (metis length_filter_le)
    with m have "length (idleList ?p' target) < length (idleList p target)"
      by (simp add: idleList_def map_of_assign)
    then show "P ?p'" by (rule less)
  qed
qed

lemma loop_dead':
  "map_of (connections p) target = Some hostConns \<Longrightarrow>
   cleanUpOlderThan_inlock_list now hostConns (heap p) = Some (candidate # rest, hp') \<Longrightarrow>
   hp' (conn candidate) = Some c \<Longrightarrow>
   isStillConnected env (conn candidate) = NotConnected \<Longrightarrow>
   acquireConnection_loop env target now timeout p =
     acquireConnection_loop env target now timeout
       (p\<lparr>connections := assign target rest (connections p),
          heap := hp'(conn candidate := None)\<rparr>)"
  by (simp add: loop_dead)

lemma loop_throws':
  "map_of (connections p) target = Some hostConns \<Longrightarrow>
   cleanUpOlderThan_inlock_list now hostConns (heap p) = Some (candidate # rest, hp') \<Longrightarrow>
   hp' (conn candidate) = Some c \<Longrightarrow>
   isStillConnected env (conn candidate) = ProbeThrows e \<Longrightarrow>
   acquireConnection_loop env target now timeout p =
     Throws (ProbeError e)
       (p\<lparr>connections := assign target rest (connections p),
          heap := hp'(conn candidate := None)\<rparr>)"
  by (simp add: loop_throws)

lemma loop_throws_only_probe:
  "acquireConnection_loop env target now timeout p = Throws x p' \<Longrightarrow>
   \<exists>e a. x = ProbeError e \<and> isStillConnected env a = ProbeThrows e"
proof (induction p rule: loop_induct [where target = target and now = now and env = env])
  case (step p)
  show ?case
  proof (cases rule: loop_cases [where p = p and target = target and env = env and now = now and timeout = timeout])
    case absent
    with step.prems show ?thesis by (simp add: loop_absent)
  next
    case undefined
    with step.prems show ?thesis by simp
  next
    case (empty hostConns hp')
    with step.prems show ?thesis by (simp add: loop_empty)
  next
    case (candidate hostConns hp' candidate rest c)
    show ?thesis
    proof (cases "isStillConnected env (conn candidate)")
      case StillConnected
      with candidate step.prems show ?thesis by (simp add: loop_connected)
    next
      case NotConnected
      from step.IH [OF candidate NotConnected] step.prems
        loop_dead' [OF candidate NotConnected, where timeout = timeout]
      show ?thesis by simp
    next
      case (ProbeThrows e)
      with candidate step.prems loop_throws' [OF candidate ProbeThrows, where timeout = timeout]
      show ?thesis by auto
    qed
  qed
qed

lemma loop_fallthrough:
  "acquireConnection_loop env target now timeout p = Returns None p' \<Longrightarrow>
   (if map_of (connections p) target = None then p' = p
    else map_of (connections p') target = Some [] \<and>
         map_of (lastUsedHosts p') target = Some kNeverTooStale)"
proof (induction p rule: loop_induct [where target = target and now = now and env = env])
  case (step p)
  show ?case
  proof (cases rule: loop_cases [where p = p and target = target and env = env and now = now and timeout = timeout])
    case absent
    with step.prems show ?thesis by (simp add: loop_absent)
  next
    case undefined
    with step.prems show ?thesis by simp
  next
    case (empty hostConns hp')
    with step.prems show ?thesis by (auto simp: loop_empty map_of_assign)
  next
    case (candidate hostConns hp' candidate rest c)
    show ?thesis
    proof (cases "isStillConnected env (conn candidate)")
      case StillConnected
      with candidate step.prems show ?thesis by (simp add: loop_connected)
    next
      case NotConnected
      from step.IH [OF candidate NotConnected] step.prems candidate(1)
        loop_dead' [OF candidate NotConnected, where timeout = timeout]
      show ?thesis by (simp add: map_of_assign)
    next
      case (ProbeThrows e)
      with candidate step.prems loop_throws' [OF candidate ProbeThrows, where timeout = timeout]
      show ?thesis by auto
    qed
  qed
qed

subsection \<open>Creation dates along runs with a monotone clock\<close>

lemma timeInvariant_mono: "timeInvariant t p \<Longrightarrow> t \<le> t' \<Longrightarrow> t' \<le> kNeverTooStale \<Longrightarrow> timeInvariant t' p"
  unfolding timeInvariant_def by fastforce

lemma timeInvariant_shrink:
  assumes inv: "timeInvariant t p"
    and lc: "lastCleanUpTime p' \<le> kNeverTooStale"
    and iu: "\<forall>ci \<in> set (inUseConnections p'). ci \<in> set (inUseConnections p) \<or> creationDate ci \<le> t"
    and cs: "\<forall>(h, l') \<in> set (connections p'). \<exists>l. (h, l) \<in> set (connections p) \<and> set l' \<subseteq> set l"
    and lu: "\<forall>(h, u') \<in> set (lastUsedHosts p'). (h, u') \<in> set (lastUsedHosts p) \<or> u' = kNeverTooStale"
  shows "timeInvariant t p'"
proof -
  from inv have t: "t \<le> kNeverTooStale"
    and a: "\<And>ci. ci \<in> set (inUseConnections p) \<Longrightarrow> creationDate ci \<le> t"
    and b: "\<And>h l ci. (h, l) \<in> set (connections p) \<Longrightarrow> ci \<in> set l \<Longrightarrow> creationDate ci \<le> t"
    and c: "\<And>h u l ci. (h, u) \<in> set (lastUsedHosts p) \<Longrightarrow> (h, l) \<in> set (connections p) \<Longrightarrow>
              ci \<in> set l \<Longrightarrow> creationDate ci \<le> u"
    unfolding timeInvariant_def by fast+
  have a': "creationDate ci \<le> t" if "ci \<in> set (inUseConnections p')" for ci
    using that iu a by blast
  have b': "creationDate ci \<le> t" if "(h, l') \<in> set (connections p')" "ci \<in> set l'" for h l' ci
  proof -
    from that(1) cs obtain l where "(h, l) \<in> set (connections p)" "set l' \<subseteq> set l" by blast
    with that(2) b show ?thesis by blast
  qed
  have c': "creationDate ci \<le> u'"
    if "(h, u') \<in> set (lastUsedHosts p')" "(h, l') \<in> set (connections p')" "ci \<in> set l'"
    for h u' l' ci
  proof -
    from that(2) cs obtain l where l: "(h, l) \<in> set (connections p)" "set l' \<subseteq> set l" by blast
    from that(1) lu consider "(h, u') \<in> set (lastUsedHosts p)" | "u' = kNeverTooStale" by blast
    then show ?thesis
    proof cases
      case 1
      with l that(3) c show ?thesis by blast
    next
      case 2
      from b' [OF that(2,3)] t 2 show ?thesis by simp
    qed
  qed
  from t lc a' b' c' show ?thesis unfolding timeInvariant_def by blast
qed

lemma staleLoop_entries:
  "cleanUpStaleHosts_loop now lc conns lu hp = Returns lu' hp' \<Longrightarrow>
   \<forall>(h, u') \<in> set lu'. (h, u') \<in> set lu \<or> u' = kNeverTooStale"
proof (induction lu arbitrary: hp lu' hp')
  case Nil
  then show ?case by simp
next
  case (Cons e rest)
  obtain host u where e: "e = (host, u)" by (cases e)
  show ?case
  proof (cases "u \<le> lc")
    case True
    with Cons.prems e obtain connList hp1 rest' where
      r: "cleanUpStaleHosts_loop now lc conns rest hp1 = Returns rest' hp'"
      and lu': "lu' = (host, kNeverTooStale) # rest'"
      by (auto split: option.splits if_splits outcome.splits)
    from Cons.IH [OF r] lu' show ?thesis by auto
  next
    case False
    with Cons.prems e obtain rest' where
      r: "cleanUpStaleHosts_loop now lc conns rest hp = Returns rest' hp'"
      and lu': "lu' = (host, u) # rest'"
      by (auto split: outcome.splits)
    from Cons.IH [OF r] lu' e show ?thesis by auto
  qed
qed

lemma timeInvariant_staleHosts:
  assumes inv: "timeInvariant t p" and now: "now \<le> kNeverTooStale"
    and r: "cleanUpStaleHosts_inlock now p = Returns u p1"
  shows "timeInvariant t p1"
proof (cases "now > Date_plus (lastCleanUpTime p) kCleanUpInterval")
  case False
  with r inv show ?thesis by (simp add: cleanUpStaleHosts_inlock_def)
next
  case True
  with r obtain lu' hp' where
    l: "cleanUpStaleHosts_loop now (lastCleanUpTime p) (connections p) (lastUsedHosts p) (heap p)
          = Returns lu' hp'"
    and p1: "p1 = p\<lparr>lastUsedHosts := lu', heap := hp', lastCleanUpTime := now\<rparr>"
    by (auto simp: cleanUpStaleHosts_inlock_def split: outcome.splits)
  show ?thesis
  proof (rule timeInvariant_shrink [OF inv])
    show "lastCleanUpTime p1 \<le> kNeverTooStale" using p1 now by simp
    show "\<forall>ci \<in> set (inUseConnections p1). ci \<in> set (inUseConnections p) \<or> creationDate ci \<le> t"
      using p1 by simp
    show "\<forall>(h, l') \<in> set (connections p1). \<exists>l. (h, l) \<in> set (connections p) \<and> set l' \<subseteq> set l"
      using p1 by auto
    show "\<forall>(h, u') \<in> set (lastUsedHosts p1). (h, u') \<in> set (lastUsedHosts p) \<or> u' = kNeverTooStale"
      using staleLoop_entries [OF l] p1 by simp
  qed
qed

lemma timeInvariant_assign_target:
  assumes inv: "timeInvariant t p"
    and m: "map_of (connections p) target = Some hostConns"
    and sub: "set l \<subseteq> set hostConns"
    and p': "connections p' = assign target l (connections p)"
      "lastCleanUpTime p' = lastCleanUpTime p"
      "lastUsedHosts p' = lastUsedHosts p \<or>
       lastUsedHosts p' = assign target kNeverTooStale (lastUsedHosts p)"
    and iu: "\<forall>ci \<in> set (inUseConnections p'). ci \<in> set (inUseConnections p) \<or> ci \<in> set hostConns"
  shows "timeInvariant t p'"
proof (rule timeInvariant_shrink [OF inv])
  from m have mem: "(target, hostConns) \<in> set (connections p)" by (rule map_of_SomeD)
  from inv p' show "lastCleanUpTime p' \<le> kNeverTooStale" by (simp add: timeInvariant_def)
  from inv mem have "\<forall>ci \<in> set hostConns. creationDate ci \<le> t"
    unfolding timeInvariant_def by fast
  with iu show "\<forall>ci \<in> set (inUseConnections p'). ci \<in> set (inUseConnections p) \<or> creationDate ci \<le> t"
    by blast
  from mem sub p'(1)
  show "\<forall>(h, l') \<in> set (connections p'). \<exists>l. (h, l) \<in> set (connections p) \<and> set l' \<subseteq> set l"
    by (auto simp: set_assign)
  from p'(3)
  show "\<forall>(h, u') \<in> set (lastUsedHosts p'). (h, u') \<in> set (lastUsedHosts p) \<or> u' = kNeverTooStale"
    by (auto simp: set_assign)
qed

lemma timeInvariant_loop:
  "timeInvariant t p \<Longrightarrow>
   acquireConnection_loop env target now timeout p = Returns x p' \<or>
   acquireConnection_loop env target now timeout p = Throws e p' \<Longrightarrow> timeInvariant t p'"
proof (induction p rule: loop_induct [where target = target and now = now and env = env])
  case (step p)
  show ?case
  proof (cases rule: loop_cases [where p = p and target = target and env = env and now = now and timeout = timeout])
    case absent
    with step.prems show ?thesis by (auto simp: loop_absent)
  next
    case undefined
    with step.prems show ?thesis by simp
  next
    case (empty hostConns hp')
    with step.prems(2)
    have p': "p' = p\<lparr>connections := assign target [] (connections p), heap := hp',
          lastUsedHosts := assign target kNeverTooStale (lastUsedHosts p)\<rparr>"
      by (auto simp: loop_empty)
    show ?thesis
      by (rule timeInvariant_assign_target [OF step.prems(1) empty(1), of "[]"]) (simp_all add: p')
  next
    case (candidate hostConns hp' candidate rest c)
    from cleanUp_list_Some [OF candidate(2)]
    have sub: "set (candidate # rest) \<subseteq> set hostConns" by (metis filter_is_subset)
    show ?thesis
    proof (cases "isStillConnected env (conn candidate)")
      case StillConnected
      with candidate step.prems(2)
      have p': "p' = p\<lparr>connections := assign target rest (connections p),
          inUseConnections := candidate # inUseConnections p,
          heap := hp'(conn candidate \<mapsto> c\<lparr>soTimeout := timeout\<rparr>)\<rparr>"
        by (auto simp: loop_connected)
      show ?thesis
        by (rule timeInvariant_assign_target [OF step.prems(1) candidate(1), of rest])
           (use sub in \<open>auto simp: p'\<close>)
    next
      case NotConnected
      let ?p1 = "p\<lparr>connections := assign target rest (connections p),
                    heap := hp'(conn candidate := None)\<rparr>"
      have "timeInvariant t ?p1"
        by (rule timeInvariant_assign_target [OF step.prems(1) candidate(1), of rest])
           (use sub in \<open>auto\<close>)
      with step.IH [OF candidate NotConnected] step.prems(2)
        loop_dead' [OF candidate NotConnected, where timeout = timeout]
      show ?thesis by simp
    next
      case (ProbeThrows e')
      with candidate step.prems(2) loop_throws' [OF candidate ProbeThrows, where timeout = timeout]
      have p': "p' = p\<lparr>connections := assign target rest (connections p),
                    heap := hp'(conn candidate := None)\<rparr>"
        by auto
      show ?thesis
        by (rule timeInvariant_assign_target [OF step.prems(1) candidate(1), of rest])
           (use sub in \<open>auto simp: p'\<close>)
    qed
  qed
qed

lemma staleLoop_never_throws:
  "cleanUpStaleHosts_loop now lc conns lu hp \<noteq> Throws e s"
proof (induction lu arbitrary: hp)
  case Nil
  then show ?case by simp
next
  case (Cons a rest)
  obtain host u where "a = (host, u)" by (cases a)
  with Cons.IH show ?case
    by (auto split: option.splits outcome.splits)
qed

lemma staleHosts_never_throws: "cleanUpStaleHosts_inlock now p \<noteq> Throws e s"
  by (auto simp: cleanUpStaleHosts_inlock_def staleLoop_never_throws split: outcome.splits)

lemma timeInvariant_dial:
  assumes inv: "timeInvariant now p"
    and r: "acquireConnection_dial env target now timeout p = Returns x p' \<or>
            acquireConnection_dial env target now timeout p = Throws e p'"
  shows "timeInvariant now p'"
proof (rule timeInvariant_shrink [OF inv])
  from r have f: "connections p' = connections p" "lastUsedHosts p' = lastUsedHosts p"
    "lastCleanUpTime p' = lastCleanUpTime p"
    "inUseConnections p' = inUseConnections p \<or>
     inUseConnections p' = \<lparr>conn = allocated p, creationDate = now\<rparr> # inUseConnections p"
    by (auto simp: acquireConnection_dial_def Let_def split: if_splits option.splits)
  from inv f show "lastCleanUpTime p' \<le> kNeverTooStale" by (simp add: timeInvariant_def)
  from f show "\<forall>ci \<in> set (inUseConnections p'). ci \<in> set (inUseConnections p) \<or> creationDate ci \<le> now"
    by auto
  from f show "\<forall>(h, l') \<in> set (connections p'). \<exists>l. (h, l) \<in> set (connections p) \<and> set l' \<subseteq> set l"
    by auto
  from f show "\<forall>(h, u') \<in> set (lastUsedHosts p'). (h, u') \<in> set (lastUsedHosts p) \<or> u' = kNeverTooStale"
    by auto
qed

lemma timeInvariant_acquire:
  assumes inv: "timeInvariant t p" and t: "t \<le> now" and now: "now \<le> kNeverTooStale"
    and r: "acquireConnection env target now timeout p = Returns x p' \<or>
            acquireConnection env target now timeout p = Throws e p'"
  shows "timeInvariant now p'"
proof -
  from r obtain u p1 where
    s: "cleanUpStaleHosts_inlock now p = Returns u p1"
    using staleHosts_never_throws [of now p]
    by (cases "cleanUpStaleHosts_inlock now p") (auto simp: acquireConnection_def)
  from timeInvariant_staleHosts [OF inv now s] t now have i1: "timeInvariant now p1"
    by (rule timeInvariant_mono)
  show ?thesis
  proof (cases "acquireConnection_loop env target now timeout p1")
    case (Returns y p2)
    with i1 have i2: "timeInvariant now p2" by (auto dest: timeInvariant_loop)
    show ?thesis
    proof (cases y)
      case None
      with s Returns r have "acquireConnection_dial env target now timeout p2 = Returns x p' \<or>
            acquireConnection_dial env target now timeout p2 = Throws e p'"
        by (simp add: acquireConnection_def)
      with i2 show ?thesis by (rule timeInvariant_dial)
    next
      case (Some c)
      with s Returns r i2 show ?thesis by (simp add: acquireConnection_def)
    qed
  next
    case (Throws e2 p2)
    with i1 have "timeInvariant now p2" by (auto dest: timeInvariant_loop)
    with s Throws r show ?thesis by (simp add: acquireConnection_def)
  next
    case InvariantFailure
    with s r show ?thesis by (simp add: acquireConnection_def)
  next
    case Undefined
    with s r show ?thesis by (simp add: acquireConnection_def)
  qed
qed

lemma timeInvariant_release:
  assumes inv: "timeInvariant t p" and t: "t \<le> now" and now: "now \<le> kNeverTooStale"
    and r: "releaseConnection iter now p = Returns u p'"
  shows "timeInvariant now p'"
proof -
  from r have iter: "iter \<in> set (inUseConnections p)"
    by (auto simp: releaseConnection_def split: if_splits)
  from inv t now have inv': "timeInvariant now p" by (rule timeInvariant_mono)
  show ?thesis
  proof (cases "shouldKeepConnection now iter")
    case False
    with r iter obtain hp' where p': "p' = p\<lparr>inUseConnections := remove1 iter (inUseConnections p), heap := hp'\<rparr>"
      by (auto simp: releaseConnection_def destroyConnection_inlock_def split: option.splits)
    show ?thesis
      by (rule timeInvariant_shrink [OF inv'])
         (use inv' in \<open>auto simp: p' timeInvariant_def dest: notin_set_remove1\<close>)
  next
    case True
    with r iter obtain c hostConns' hp' c' where
      c: "heap p (conn iter) = Some c" and
      cl: "cleanUpOlderThan_inlock_list now (idleList p (serverHostAndPort c)) (heap p)
             = Some (hostConns', hp')" and
      c': "hp' (conn iter) = Some c'" and
      p': "p' = p\<lparr>connections := assign (serverHostAndPort c) (iter # hostConns') (connections p),
                    inUseConnections := remove1 iter (inUseConnections p),
                    heap := hp',
                    lastUsedHosts := assign (serverHostAndPort c') now (lastUsedHosts p)\<rparr>"
      by (auto simp: releaseConnection_def Let_def idleList_def split: option.splits)
    from cleanUp_list_Some [OF cl] c c' have cc: "c' = c"
      by (auto simp: freed_def split: if_splits)
    let ?host = "serverHostAndPort c"
    from cleanUp_list_Some [OF cl] have sub: "set hostConns' \<subseteq> set (idleList p ?host)"
      by (metis filter_is_subset)
    from inv' have tt: "now \<le> kNeverTooStale"
      and a: "\<And>ci. ci \<in> set (inUseConnections p) \<Longrightarrow> creationDate ci \<le> now"
      and b: "\<And>h l ci. (h, l) \<in> set (connections p) \<Longrightarrow> ci \<in> set l \<Longrightarrow> creationDate ci \<le> now"
      and d: "\<And>h u l ci. (h, u) \<in> set (lastUsedHosts p) \<Longrightarrow> (h, l) \<in> set (connections p) \<Longrightarrow>
              ci \<in> set l \<Longrightarrow> creationDate ci \<le> u"
      and lc: "lastCleanUpTime p \<le> kNeverTooStale"
      unfolding timeInvariant_def by fast+
    have idle: "creationDate ci \<le> now" if "ci \<in> set (idleList p ?host)" for ci
    proof (cases "map_of (connections p) ?host")
      case None
      with that show ?thesis by (simp add: idleList_def)
    next
      case (Some l)
      then have "(?host, l) \<in> set (connections p)" by (rule map_of_SomeD)
      with that Some b show ?thesis by (auto simp: idleList_def)
    qed
    have new: "creationDate ci \<le> now" if "ci \<in> set (iter # hostConns')" for ci
      using that a [OF iter] idle sub by auto
    have a': "creationDate ci \<le> now" if "ci \<in> set (inUseConnections p')" for ci
      using that a by (auto simp: p' dest: notin_set_remove1)
    have b': "creationDate ci \<le> now" if "(h, l) \<in> set (connections p')" "ci \<in> set l" for h l ci
      using that b new by (auto simp: p' set_assign)
    have d': "creationDate ci \<le> u'"
      if "(h, u') \<in> set (lastUsedHosts p')" "(h, l) \<in> set (connections p')" "ci \<in> set l"
      for h u' l ci
    proof (cases "h = ?host")
      case True
      with that(1) have "u' = now" by (auto simp: p' cc set_assign)
      moreover from True that(2) have "l = iter # hostConns'" by (auto simp: p' set_assign)
      ultimately show ?thesis using new that(3) by simp
    next
      case False
      with that(1,2) have "(h, u') \<in> set (lastUsedHosts p)" "(h, l) \<in> set (connections p)"
        by (auto simp: p' cc set_assign)
      with that(3) d show ?thesis by blast
    qed
    from tt lc a' b' d' show ?thesis unfolding timeInvariant_def by (auto simp: p')
  qed
qed

lemma timeInvariant_destroy:
  assumes inv: "timeInvariant t p" and r: "destroyConnection iter p = Returns u p'"
  shows "timeInvariant t p'"
proof -
  from r obtain hp' where p': "p' = p\<lparr>inUseConnections := remove1 iter (inUseConnections p), heap := hp'\<rparr>"
    by (auto simp: destroyConnection_def destroyConnection_inlock_def split: option.splits if_splits)
  show ?thesis
    by (rule timeInvariant_shrink [OF inv])
       (use inv in \<open>auto simp: p' timeInvariant_def dest: notin_set_remove1\<close>)
qed

lemma timeInvariant_cleanUp:
  assumes inv: "timeInvariant t p" and r: "cleanUpOlderThan now p = Returns u p'"
  shows "timeInvariant t p'"
proof -
  from r obtain m' hp' where
    h: "cleanUpOlderThan_inlock_hosts now (connections p) (heap p) = Some (m', hp')"
    and p': "p' = p\<lparr>connections := m', heap := hp'\<rparr>"
    by (auto simp: cleanUpOlderThan_def cleanUpOlderThan_inlock_def split: option.splits)
  from cleanUp_hosts_Some [OF h]
  have m': "m' = filter (\<lambda>e. snd e \<noteq> [])
              (map (\<lambda>e. (fst e, filter (shouldKeepConnection now) (snd e))) (connections p))"
    by simp
  show ?thesis
  proof (rule timeInvariant_shrink [OF inv])
    show "\<forall>(h, l') \<in> set (connections p'). \<exists>l. (h, l) \<in> set (connections p) \<and> set l' \<subseteq> set l"
      by (auto simp: p' m')
  qed (use inv in \<open>auto simp: p' timeInvariant_def\<close>)
qed

lemma timeInvariant_closeAll:
  assumes inv: "timeInvariant t p" and r: "closeAllInUseConnections p = Returns u p'"
  shows "timeInvariant t p'"
proof -
  from r obtain hp' where p': "p' = p\<lparr>heap := hp'\<rparr>"
    by (auto simp: closeAllInUseConnections_def split: option.splits)
  with inv show ?thesis by (simp add: timeInvariant_def)
qed

lemma timeInvariant_new: "t \<le> kNeverTooStale \<Longrightarrow> timeInvariant t (ConnectionPool_ctor tags)"
  by (simp add: timeInvariant_def ConnectionPool_ctor_def kNeverTooStale_def)

lemma reachable_timeInv: "reachable t p \<Longrightarrow> timeInvariant t p"
proof (induction rule: reachable.induct)
  case (reach_new t tags)
  then show ?case by (rule timeInvariant_new)
next
  case (reach_acquire t p now env target timeout ci p')
  then show ?case by (blast intro: timeInvariant_acquire)
next
  case (reach_acquire_throws t p now env target timeout e p')
  then show ?case by (blast intro: timeInvariant_acquire)
next
  case (reach_release t p now iter u p')
  then show ?case by (blast intro: timeInvariant_release)
next
  case (reach_destroy t p iter u p')
  then show ?case by (blast intro: timeInvariant_destroy)
next
  case (reach_cleanUp t p now u p')
  then show ?case by (blast intro: timeInvariant_cleanUp)
next
  case (reach_closeAll t p u p')
  then show ?case by (blast intro: timeInvariant_closeAll)
qed

lemma staleLoop_no_invariant_failure:
  assumes "\<forall>(h, u) \<in> set lu. u \<le> lc \<longrightarrow>
             (\<forall>l. map_of conns h = Some l \<longrightarrow> filter (shouldKeepConnection now) l = [])"
  shows "cleanUpStaleHosts_loop now lc conns lu hp \<noteq> InvariantFailure"
  using assms
proof (induction lu arbitrary: hp)
  case Nil
  then show ?case by simp
next
  case (Cons e rest)
  obtain host u where e: "e = (host, u)" by (cases e)
  from Cons.prems have rest: "\<forall>(h, u) \<in> set rest. u \<le> lc \<longrightarrow>
             (\<forall>l. map_of conns h = Some l \<longrightarrow> filter (shouldKeepConnection now) l = [])"
    by simp
  note IH = Cons.IH [OF rest]
  show ?case
  proof (cases "u \<le> lc")
    case False
    with e IH [of hp] show ?thesis by (auto split: outcome.splits)
  next
    case True
    show ?thesis
    proof (cases "map_of conns host")
      case None
      with True e show ?thesis by simp
    next
      case (Some l)
      with Cons.prems e True have emp: "filter (shouldKeepConnection now) l = []" by auto
      show ?thesis
      proof (cases "cleanUpOlderThan_inlock_list now l hp")
        case None
        with True e Some show ?thesis by simp
      next
        case (Some r)
        obtain l' hp' where r: "r = (l', hp')" by (cases r)
        from cleanUp_list_Some [of now l hp l' hp'] Some r emp have "l' = []" by simp
        with True e \<open>map_of conns host = Some l\<close> Some r IH [of hp'] show ?thesis
          by (auto split: outcome.splits)
      qed
    qed
  qed
qed

subsection \<open>The exceptions of \<open>acquireConnection\<close>\<close>

lemma dial_throws:
  "acquireConnection_dial env target now timeout p = Throws x p' \<Longrightarrow>
   x = ConnectFailed \<or> x = AuthenticationFailed \<or> (\<exists>e. x = AuthError e)"
  by (auto simp: acquireConnection_dial_def Let_def split: if_splits option.splits)

lemma acquire_throws_kinds:
  assumes "acquireConnection env target now timeout p = Throws x p'"
  shows "x = ConnectFailed \<or> x = AuthenticationFailed \<or> (\<exists>e. x = AuthError e) \<or>
         (\<exists>e a. x = ProbeError e \<and> isStillConnected env a = ProbeThrows e)"
proof (cases "cleanUpStaleHosts_inlock now p")
  case (Returns u p1)
  show ?thesis
  proof (cases "acquireConnection_loop env target now timeout p1")
    case (Returns y p2)
    show ?thesis
    proof (cases y)
      case None
      with assms \<open>cleanUpStaleHosts_inlock now p = Returns u p1\<close> Returns
      have "acquireConnection_dial env target now timeout p2 = Throws x p'"
        by (simp add: acquireConnection_def)
      from dial_throws [OF this] show ?thesis by blast
    next
      case (Some a)
      with assms \<open>cleanUpStaleHosts_inlock now p = Returns u p1\<close> Returns
      show ?thesis by (simp add: acquireConnection_def)
    qed
  next
    case (Throws e p2)
    with assms \<open>cleanUpStaleHosts_inlock now p = Returns u p1\<close>
    have "x = e" by (simp add: acquireConnection_def)
    with loop_throws_only_probe [OF Throws] show ?thesis by blast
  next
    case InvariantFailure
    with assms \<open>cleanUpStaleHosts_inlock now p = Returns u p1\<close>
    show ?thesis by (simp add: acquireConnection_def)
  next
    case Undefined
    with assms \<open>cleanUpStaleHosts_inlock now p = Returns u p1\<close>
    show ?thesis by (simp add: acquireConnection_def)
  qed
next
  case (Throws e s)
  with staleHosts_never_throws show ?thesis by blast
next
  case InvariantFailure
  with assms show ?thesis by (simp add: acquireConnection_def)
next
  case Undefined
  with assms show ?thesis by (simp add: acquireConnection_def)
qed

subsection \<open>The sample runs, step by step\<close>

lemma run_A1: "acquireConnection exampleEnv 1 1000 500 (ConnectionPool_ctor 0) = Returns recA stateA1"
  by (simp add: eval_defs run_defs)

lemma run_A2: "releaseConnection recA 1000 stateA1 = Returns () stateA2"
  by (simp add: eval_defs run_defs)

lemma run_A3: "acquireConnection exampleEnv 2 400000 500 stateA2 = Returns recB stateA3"
  by (simp add: eval_defs run_defs)

lemma run_A4: "acquireConnection exampleEnv 2 800000 500 stateA3 = Returns recC stateA4"
  by (simp add: eval_defs run_defs)

lemma run_A5: "acquireConnection exampleEnv 1 800001 500 stateA4 = Undefined"
  by (simp add: eval_defs run_defs)

lemma run_B3: "cleanUpOlderThan 31000 stateA2 = Returns () stateB3"
  by (simp add: eval_defs run_defs)

lemma run_B4: "acquireConnection exampleEnv 2 400000 500 stateB3 = Returns recB stateB4"
  by (simp add: eval_defs run_defs)

lemma run_B5: "acquireConnection exampleEnv 2 800000 500 stateB4 = Undefined"
  by (simp add: eval_defs run_defs)

lemma run_B3_dial:
  "acquireConnection exampleEnv 1 50000 500 stateB3 =
     Returns recF stateB3_dialed"
  by (simp add: eval_defs run_defs)

lemma run_C3: "acquireConnection exampleEnv 1 2000 500 stateA2 = Returns recA stateC3"
  by (simp add: eval_defs run_defs)

lemma run_C4: "acquireConnection exampleEnv 2 2000 500 stateC3 = Returns recD stateC4"
  by (simp add: eval_defs run_defs)

lemma run_C5: "releaseConnection recD 2000 stateC4 = Returns () stateC5"
  by (simp add: eval_defs run_defs)

lemma run_C6: "cleanUpOlderThan 0 stateC5 = Returns () stateC6"
  by (simp add: eval_defs run_defs)

lemma run_D1: "acquireConnection exampleEnv 1 280000 500 (ConnectionPool_ctor 0) = Returns recE stateD1"
  by (simp add: eval_defs run_defs)

lemma run_D2: "releaseConnection recE 0 stateD1 = Returns () stateD2"
  by (simp add: eval_defs run_defs)

lemma run_D3: "acquireConnection exampleEnv 2 300001 500 stateD2 = InvariantFailure"
  by (simp add: eval_defs run_defs)

lemma run_A2_throws:
  "acquireConnection throwingEnv 1 2000 500 stateA2 =
     Throws (ProbeError 7) stateA2_probed"
  by (simp add: eval_defs run_defs)

lemma run_A3_sweep:
  "cleanUpStaleHosts_inlock 800000 stateA3 =
     Returns () stateA3_swept"
  by (simp add: eval_defs run_defs)

subsection \<open>Dates within the range of \<open>Date_t\<close>\<close>

lemma Date_plus_in_range: "isDate (d + ms) \<Longrightarrow> Date_plus d ms = d + ms"
  by (simp add: isDate_def Date_plus_def kNeverTooStale_def)

lemma shouldKeep_in_range:
  "expiresInRange ci \<Longrightarrow>
   shouldKeepConnection now ci \<longleftrightarrow> now < creationDate ci + kMaxConnectionAge"
  by (auto simp: expiresInRange_def shouldKeepConnection_def Date_plus_in_range)

lemma filter_keep_in_range:
  "\<forall>ci \<in> set l. expiresInRange ci \<Longrightarrow>
   filter (shouldKeepConnection now) l = filter (\<lambda>ci. now < creationDate ci + kMaxConnectionAge) l"
  by (rule filter_cong) (auto simp: shouldKeep_in_range)

lemma expired_in_range:
  "\<forall>ci \<in> set l. expiresInRange ci \<Longrightarrow>
   expired now l = conn ` set (filter (\<lambda>ci. creationDate ci + kMaxConnectionAge \<le> now) l)"
proof -
  assume r: "\<forall>ci \<in> set l. expiresInRange ci"
  have "filter (\<lambda>ci. \<not> shouldKeepConnection now ci) l
          = filter (\<lambda>ci. creationDate ci + kMaxConnectionAge \<le> now) l"
    by (rule filter_cong) (use r in \<open>auto simp: shouldKeep_in_range\<close>)
  then show ?thesis by (simp add: expired_def)
qed

subsection \<open>The loop of \<open>acquireConnection\<close> over dead candidates\<close>

lemma assign_assign: "assign k v (assign k w m) = assign k v m"
proof -
  have "filter (\<lambda>e. fst e \<noteq> k) (insort_key fst (k, w) xs) = filter (\<lambda>e. fst e \<noteq> k) xs"
    for xs :: "('a \<times> 'b) list"
    by (induction xs) auto
  then show ?thesis by (simp add: assign_def)
qed

lemma cleanUp_all_kept:
  "\<forall>ci \<in> set l. shouldKeepConnection now ci \<Longrightarrow>
   cleanUpOlderThan_inlock_list now l hp = Some (l, hp)"
  by (induction l) (simp_all add: cleanUp_list_keep)

lemma expired_all_kept:
  "\<forall>ci \<in> set l. shouldKeepConnection now ci \<Longrightarrow> expired now l = {}"
  by (auto simp: expired_def)

lemma kept_not_expired:
  assumes "distinct (map conn l)" "ci \<in> set l" "shouldKeepConnection now ci"
  shows "conn ci \<notin> expired now l"
proof
  assume "conn ci \<in> expired now l"
  then obtain x where x: "x \<in> set l" "\<not> shouldKeepConnection now x" "conn x = conn ci"
    by (auto simp: expired_def)
  from assms(1) have "inj_on conn (set l)" by (simp add: distinct_map)
  with x assms(2) have "x = ci" by (auto dest: inj_onD)
  with x assms(3) show False by simp
qed

text \<open>The loop does not change when the target's list is cleaned beforehand.\<close>

lemma loop_on_cleaned_list:
  fixes p :: "'h::linorder ConnectionPool"
  assumes m: "map_of (connections p) target = Some l"
    and d: "distinct (map conn l)"
    and live: "\<forall>ci \<in> set l. heap p (conn ci) \<noteq> None"
  shows "acquireConnection_loop env target now timeout p =
         acquireConnection_loop env target now timeout
           (p\<lparr>connections := assign target (filter (shouldKeepConnection now) l) (connections p),
              heap := freed (expired now l) (heap p)\<rparr>)"
proof -
  let ?K = "shouldKeepConnection now"
  let ?h = "freed (expired now l) (heap p)"
  let ?q = "p\<lparr>connections := assign target (filter ?K l) (connections p), heap := ?h\<rparr>"
  note cl = cleanUp_list_wf [OF d live, of now]
  have mq: "map_of (connections ?q) target = Some (filter ?K l)"
    by (simp add: map_of_assign)
  have clq: "cleanUpOlderThan_inlock_list now (filter ?K l) (heap ?q) = Some (filter ?K l, ?h)"
    using cleanUp_all_kept [of "filter ?K l" now ?h] by simp
  show ?thesis
  proof (cases "filter ?K l")
    case Nil
    with loop_empty [OF m, of now ?h env timeout] cl
      loop_empty [OF mq, of now ?h env timeout] clq
    show ?thesis by (simp add: assign_assign)
  next
    case (Cons cand rest)
    then have "cand \<in> set (filter ?K l)" by simp
    then have cand: "cand \<in> set l" "?K cand" by simp_all
    from kept_not_expired [OF d cand] live cand(1) obtain c where c: "?h (conn cand) = Some c"
      by (auto simp: freed_def)
    from cl Cons have cl': "cleanUpOlderThan_inlock_list now l (heap p) = Some (cand # rest, ?h)"
      by simp
    from clq Cons
    have clq': "cleanUpOlderThan_inlock_list now (filter ?K l) (heap ?q) = Some (cand # rest, ?h)"
      by simp
    show ?thesis
    proof (cases "isStillConnected env (conn cand)")
      case StillConnected
      from loop_connected [OF m cl' c StillConnected, of timeout]
        loop_connected [OF mq clq' c StillConnected, of timeout]
      show ?thesis by (simp add: assign_assign)
    next
      case NotConnected
      from loop_dead' [OF m cl' c NotConnected, of timeout]
        loop_dead' [OF mq clq' c NotConnected, of timeout]
      show ?thesis by (simp add: assign_assign)
    next
      case (ProbeThrows e)
      from loop_throws' [OF m cl' c ProbeThrows, of timeout]
        loop_throws' [OF mq clq' c ProbeThrows, of timeout]
      show ?thesis by (simp add: assign_assign)
    qed
  qed
qed

text \<open>Candidates reported dead at the front of a clean list are destroyed and skipped.\<close>

lemma loop_skips_dead_front:
  fixes p :: "'h::linorder ConnectionPool"
  assumes m: "map_of (connections p) target = Some (dead @ others)"
    and kept: "\<forall>ci \<in> set (dead @ others). shouldKeepConnection now ci"
    and d: "distinct (map conn (dead @ others))"
    and live: "\<forall>ci \<in> set (dead @ others). heap p (conn ci) \<noteq> None"
    and dead: "\<forall>ci \<in> set dead. isStillConnected env (conn ci) = NotConnected"
  shows "acquireConnection_loop env target now timeout p =
         acquireConnection_loop env target now timeout
           (p\<lparr>connections := assign target others (connections p),
              heap := freed (conn ` set dead) (heap p)\<rparr>)"
  using assms
proof (induction dead arbitrary: p)
  case Nil
  from Nil.prems have "filter (shouldKeepConnection now) others = others"
    by (simp add: filter_id_conv)
  with loop_on_cleaned_list [where p = p and target = target and l = others and now = now
      and env = env and timeout = timeout] Nil.prems
  show ?case by (simp add: expired_all_kept)
next
  case (Cons x dead')
  let ?l = "dead' @ others"
  from Cons.prems(4) obtain c where c: "heap p (conn x) = Some c" by auto
  from Cons.prems(2) have cl:
    "cleanUpOlderThan_inlock_list now ((x # dead') @ others) (heap p) = Some (x # ?l, heap p)"
    using cleanUp_all_kept [of "(x # dead') @ others" now "heap p"] by simp
  from Cons.prems(5) have nx: "isStillConnected env (conn x) = NotConnected" by simp
  let ?q = "p\<lparr>connections := assign target ?l (connections p), heap := (heap p)(conn x := None)\<rparr>"
  from loop_dead' [OF Cons.prems(1) cl c nx, of timeout]
  have step: "acquireConnection_loop env target now timeout p =
              acquireConnection_loop env target now timeout ?q" .
  have mq: "map_of (connections ?q) target = Some ?l" by (simp add: map_of_assign)
  from Cons.prems(2) have kq: "\<forall>ci \<in> set ?l. shouldKeepConnection now ci" by simp
  from Cons.prems(3) have dq: "distinct (map conn ?l)" by simp
  have lq: "\<forall>ci \<in> set ?l. heap ?q (conn ci) \<noteq> None"
  proof
    fix ci assume ci: "ci \<in> set ?l"
    with Cons.prems(3) have "conn ci \<noteq> conn x"
      by (metis append_Cons distinct.simps(2) image_eqI list.simps(9) set_map)
    moreover from ci Cons.prems(4) have "heap p (conn ci) \<noteq> None" by simp
    ultimately show "heap ?q (conn ci) \<noteq> None" by simp
  qed
  from Cons.prems(5) have deadq: "\<forall>ci \<in> set dead'. isStillConnected env (conn ci) = NotConnected"
    by simp
  from Cons.IH [OF mq kq dq lq deadq]
  have "acquireConnection_loop env target now timeout ?q =
        acquireConnection_loop env target now timeout
          (?q\<lparr>connections := assign target others (connections ?q),
              heap := freed (conn ` set dead') (heap ?q)\<rparr>)" .
  moreover have "freed (conn ` set dead') ((heap p)(conn x := None))
                   = freed (conn ` set (x # dead')) (heap p)"
    by (auto simp: freed_def fun_eq_iff)
  ultimately show ?case using step by (simp add: assign_assign)
qed

text \<open>Both together: the loop on a pool whose target list is owned.\<close>

lemma loop_after_dead_candidates:
  fixes p :: "'h::linorder ConnectionPool"
  assumes m: "map_of (connections p) target = Some l"
    and d: "distinct (map conn l)"
    and live: "\<forall>ci \<in> set l. heap p (conn ci) \<noteq> None"
    and split: "filter (shouldKeepConnection now) l = dead @ others"
    and dead: "\<forall>ci \<in> set dead. isStillConnected env (conn ci) = NotConnected"
  shows "acquireConnection_loop env target now timeout p =
         acquireConnection_loop env target now timeout
           (p\<lparr>connections := assign target others (connections p),
              heap := freed (expired now l \<union> conn ` set dead) (heap p)\<rparr>)"
proof -
  let ?K = "shouldKeepConnection now"
  let ?h = "freed (expired now l) (heap p)"
  let ?q = "p\<lparr>connections := assign target (filter ?K l) (connections p), heap := ?h\<rparr>"
  have mq: "map_of (connections ?q) target = Some (dead @ others)"
    by (simp add: map_of_assign split)
  have sub: "set (dead @ others) \<subseteq> set l" "\<forall>ci \<in> set (dead @ others). ?K ci"
    using split [symmetric] by auto
  from d have dq: "distinct (map conn (dead @ others))"
    using split [symmetric] by (simp only: distinct_map_filter)
  have lq: "\<forall>ci \<in> set (dead @ others). heap ?q (conn ci) \<noteq> None"
  proof
    fix ci assume ci: "ci \<in> set (dead @ others)"
    with sub have "ci \<in> set l" "?K ci" by auto
    from kept_not_expired [OF d this] live \<open>ci \<in> set l\<close>
    show "heap ?q (conn ci) \<noteq> None" by (simp add: freed_def)
  qed
  have "freed (conn ` set dead) ?h = freed (expired now l \<union> conn ` set dead) (heap p)"
    by (auto simp: freed_def fun_eq_iff)
  with loop_on_cleaned_list [OF m d live, where env = env and now = now and timeout = timeout]
    loop_skips_dead_front [OF mq sub(2) dq lq dead, of timeout]
  show ?thesis by (simp add: assign_assign)
qed

subsection \<open>The stale-host sweep with a monotone clock\<close>

text \<open>
With a clock that never decreases and sums that stay below \<open>Date_t::max()\<close>, the
\<open>invariant\<close> of the stale-host sweep holds.
\<close>

lemma stale_sweep_assertion_in_range:
  assumes reach: "reachable t p"
    and now: "isDate now"
    and range: "isDate (lastCleanUpTime p + kCleanUpInterval)"
    and dates: "\<forall>ci \<in> set (idleRecords p). isDate (creationDate ci)"
    and runs: "now > lastCleanUpTime p + kCleanUpInterval"
  shows "cleanUpStaleHosts_inlock now p \<noteq> InvariantFailure"
proof -
  from reach have inv: "timeInvariant t p" by (rule reachable_timeInv)
  have empty: "filter (shouldKeepConnection now) connList = []"
    if e: "(host, lastUsed) \<in> set (lastUsedHosts p)" and stale: "lastUsed \<le> lastCleanUpTime p"
      and m: "map_of (connections p) host = Some connList"
    for host lastUsed connList
  proof -
    from m have mem: "(host, connList) \<in> set (connections p)" by (rule map_of_SomeD)
    have "\<not> shouldKeepConnection now ci" if ci: "ci \<in> set connList" for ci
    proof -
      from inv e mem ci have le: "creationDate ci \<le> lastUsed"
        unfolding timeInvariant_def by fast
      from mem ci have "ci \<in> set (idleRecords p)" by (force simp: idleRecords_def)
      with dates have "isDate (creationDate ci)" by simp
      with le stale range have "expiresInRange ci"
        by (simp add: expiresInRange_def isDate_def kMaxConnectionAge_def kCleanUpInterval_def)
      from shouldKeep_in_range [OF this, of now] le stale runs show ?thesis
        by (simp add: kMaxConnectionAge_def kCleanUpInterval_def)
    qed
    then show ?thesis by (simp add: filter_empty_conv)
  qed
  then have "cleanUpStaleHosts_loop now (lastCleanUpTime p) (connections p) (lastUsedHosts p) (heap p)
               \<noteq> InvariantFailure"
    by (intro staleLoop_no_invariant_failure) auto
  then show ?thesis
    by (auto simp: cleanUpStaleHosts_inlock_def split: outcome.splits)
qed

subsection \<open>Further runs\<close>

lemma run_E1:
  "acquireConnection exampleEnv 1 kNeverTooStale 500 (ConnectionPool_ctor 0) = Returns recG stateE1"
  by (simp add: eval_defs run_defs)

lemma run_E1_release:
  "releaseConnection recG kNeverTooStale stateE1 = Returns () stateE1_destroyed"
  by (simp add: eval_defs run_defs)

lemma run_E2: "releaseConnection recG (- 9223372036854775808) stateE1 = Returns () stateE2"
  by (simp add: eval_defs run_defs)

lemma run_E3: "cleanUpOlderThan 0 stateE2 = Returns () stateE3"
  by (simp add: eval_defs run_defs)

lemma run_F2: "acquireConnection exampleEnv 1 1000 500 stateA1 = Returns recH stateF2"
  by (simp add: eval_defs run_defs)

lemma run_F3: "releaseConnection recA 1000 stateF2 = Returns () stateF3"
  by (simp add: eval_defs run_defs)

lemma run_F4: "releaseConnection recH 1000 stateF3 = Returns () stateF4"
  by (simp add: eval_defs run_defs)

lemma run_F4_throws:
  "acquireConnection mixedEnv 1 2000 500 stateF4 = Throws (ProbeError 7) stateF4_thrown"
  by (simp add: eval_defs run_defs)

lemma run_F4_reuse:
  "acquireConnection reuseEnv 1 2000 500 stateF4 = Returns recA stateF4_reused"
  by (simp add: eval_defs run_defs)

lemma run_F4_dead:
  "acquireConnection deadEnv 1 2000 500 stateF4 =
     acquireConnection_dial deadEnv 1 2000 500 stateF4_emptied"
  by (simp add: eval_defs run_defs)

lemma run_N1:
  "acquireConnection exampleEnv 1 9223372036854525807 500 (ConnectionPool_ctor 0) =
     Returns recN stateN1"
  by (simp add: eval_defs run_defs)

lemma run_N2: "releaseConnection recN 9223372036854525807 stateN1 = Returns () stateN2"
  by (simp add: eval_defs run_defs)

lemma run_N3: "acquireConnection exampleEnv 2 9223372036854525808 500 stateN2 = InvariantFailure"
  by (simp add: eval_defs run_defs)

section \<open>The claims\<close>

subsection \<open>C1: liveness-probe failures in \<open>acquireConnection\<close>\<close>

text \<open>
Claim C1, as amended. Let the stale-host sweep at the start of \<open>acquireConnection\<close>
return the pool \<open>q\<close>, let the target have the idle list \<open>l\<close> there, its records owning
live, pairwise different connections, and let the unexpired records of \<open>l\<close> begin with
candidates \<open>dead\<close> whose probe answers false. Each of these is destroyed and the loop goes
on to the next candidate. If the probe of the next candidate throws, that candidate is
destroyed as well and \<open>acquireConnection\<close> ends by the probe's exception, which
reaches the caller. If the next candidate is connected, \<open>acquireConnection\<close> returns it,
moved to the in-use list with its timeout set. If no candidate is left,
\<open>acquireConnection\<close> is the dial, on the pool in which the target's list is empty and
its timestamp is the sentinel. So the exceptions \<open>acquireConnection\<close> can end by are
the dial's (\<open>ConnectFailed\<close>, \<open>AuthenticationFailed\<close>, what \<open>auth\<close> throws) and an
exception that the probe of some candidate throws.
\<close>

theorem acquire_probe_failure_policy:
  fixes p q :: "'h::linorder ConnectionPool"
  assumes sweep: "cleanUpStaleHosts_inlock now p = Returns () q"
    and found: "map_of (connections q) target = Some l"
    and owned: "distinct (map conn l)" "\<forall>ci \<in> set l. heap q (conn ci) \<noteq> None"
    and dead: "\<forall>ci \<in> set dead. isStillConnected env (conn ci) = NotConnected"
  shows
    "(filter (shouldKeepConnection now) l = dead @ candidate # rest \<and>
      isStillConnected env (conn candidate) = ProbeThrows e \<longrightarrow>
        acquireConnection env target now timeout p =
          Throws (ProbeError e)
            (q\<lparr>connections := assign target rest (connections q),
               heap := freed (expired now l \<union> conn ` set (dead @ [candidate])) (heap q)\<rparr>)) \<and>
     (filter (shouldKeepConnection now) l = dead @ candidate # rest \<and>
      isStillConnected env (conn candidate) = StillConnected \<and>
      heap q (conn candidate) = Some c \<longrightarrow>
        acquireConnection env target now timeout p =
          Returns candidate
            (q\<lparr>connections := assign target rest (connections q),
               inUseConnections := candidate # inUseConnections q,
               heap := (freed (expired now l \<union> conn ` set dead) (heap q))
                         (conn candidate \<mapsto> c\<lparr>soTimeout := timeout\<rparr>)\<rparr>)) \<and>
     (filter (shouldKeepConnection now) l = dead \<longrightarrow>
        acquireConnection env target now timeout p =
          acquireConnection_dial env target now timeout
            (q\<lparr>connections := assign target [] (connections q),
               heap := freed (expired now l \<union> conn ` set dead) (heap q),
               lastUsedHosts := assign target kNeverTooStale (lastUsedHosts q)\<rparr>)) \<and>
     (acquireConnection env target now timeout p = Throws x p' \<longrightarrow>
        x = ConnectFailed \<or> x = AuthenticationFailed \<or> (\<exists>e. x = AuthError e) \<or>
        (\<exists>e a. x = ProbeError e \<and> isStillConnected env a = ProbeThrows e))"
proof (intro conjI impI)
  let ?K = "shouldKeepConnection now"
  let ?h = "freed (expired now l \<union> conn ` set dead) (heap q)"
  have front: "?h (conn candidate) = heap q (conn candidate) \<and> heap q (conn candidate) \<noteq> None"
    if split: "filter ?K l = dead @ candidate # rest"
  proof -
    from split have "candidate \<in> set (filter ?K l)" by simp
    then have cand: "candidate \<in> set l" "?K candidate" by simp_all
    from kept_not_expired [OF owned(1) cand] have a: "conn candidate \<notin> expired now l" .
    from owned(1) have "distinct (map conn (filter ?K l))" by (rule distinct_map_filter)
    with split have "conn candidate \<notin> conn ` set dead" by auto
    with a cand(1) owned(2) show ?thesis by (simp add: freed_def)
  qed
  have loop: "acquireConnection_loop env target now timeout q =
      acquireConnection_loop env target now timeout
        (q\<lparr>connections := assign target others (connections q), heap := ?h\<rparr>)"
    if "filter ?K l = dead @ others" for others
    using loop_after_dead_candidates [OF found owned that dead, of timeout] .
  {
    assume a: "filter ?K l = dead @ candidate # rest \<and>
      isStillConnected env (conn candidate) = ProbeThrows e"
    let ?q = "q\<lparr>connections := assign target (candidate # rest) (connections q), heap := ?h\<rparr>"
    from a front obtain c' where c': "?h (conn candidate) = Some c'" by auto
    have m: "map_of (connections ?q) target = Some (candidate # rest)"
      by (simp add: map_of_assign)
    have "\<forall>ci \<in> set (candidate # rest). ?K ci"
    proof
      fix ci assume "ci \<in> set (candidate # rest)"
      with a have "ci \<in> set (filter ?K l)" by auto
      then show "?K ci" by simp
    qed
    from cleanUp_all_kept [OF this, of ?h]
    have cl: "cleanUpOlderThan_inlock_list now (candidate # rest) (heap ?q)
                = Some (candidate # rest, ?h)" by simp
    from a have pr: "isStillConnected env (conn candidate) = ProbeThrows e" by simp
    have "?h(conn candidate := None)
            = freed (expired now l \<union> conn ` set (dead @ [candidate])) (heap q)"
      by (auto simp: freed_def fun_eq_iff)
    with loop_throws' [OF m cl c' pr, of timeout] loop [of "candidate # rest"] a
    have "acquireConnection_loop env target now timeout q =
          Throws (ProbeError e)
            (q\<lparr>connections := assign target rest (connections q),
               heap := freed (expired now l \<union> conn ` set (dead @ [candidate])) (heap q)\<rparr>)"
      by (simp add: assign_assign)
    with sweep show "acquireConnection env target now timeout p =
          Throws (ProbeError e)
            (q\<lparr>connections := assign target rest (connections q),
               heap := freed (expired now l \<union> conn ` set (dead @ [candidate])) (heap q)\<rparr>)"
      by (simp add: acquireConnection_def)
  next
    assume a: "filter ?K l = dead @ candidate # rest \<and>
      isStillConnected env (conn candidate) = StillConnected \<and>
      heap q (conn candidate) = Some c"
    let ?q = "q\<lparr>connections := assign target (candidate # rest) (connections q), heap := ?h\<rparr>"
    from a front have c: "?h (conn candidate) = Some c" by auto
    have m: "map_of (connections ?q) target = Some (candidate # rest)"
      by (simp add: map_of_assign)
    have "\<forall>ci \<in> set (candidate # rest). ?K ci"
    proof
      fix ci assume "ci \<in> set (candidate # rest)"
      with a have "ci \<in> set (filter ?K l)" by auto
      then show "?K ci" by simp
    qed
    from cleanUp_all_kept [OF this, of ?h]
    have cl: "cleanUpOlderThan_inlock_list now (candidate # rest) (heap ?q)
                = Some (candidate # rest, ?h)" by simp
    from a have pr: "isStillConnected env (conn candidate) = StillConnected" by simp
    from loop_connected [OF m cl c pr, of timeout] loop [of "candidate # rest"] a
    have "acquireConnection_loop env target now timeout q =
          Returns (Some candidate)
            (q\<lparr>connections := assign target rest (connections q),
               inUseConnections := candidate # inUseConnections q,
               heap := ?h(conn candidate \<mapsto> c\<lparr>soTimeout := timeout\<rparr>)\<rparr>)"
      by (simp add: assign_assign)
    with sweep show "acquireConnection env target now timeout p =
          Returns candidate
            (q\<lparr>connections := assign target rest (connections q),
               inUseConnections := candidate # inUseConnections q,
               heap := ?h(conn candidate \<mapsto> c\<lparr>soTimeout := timeout\<rparr>)\<rparr>)"
      by (simp add: acquireConnection_def)
  next
    assume a: "filter ?K l = dead"
    let ?q = "q\<lparr>connections := assign target [] (connections q), heap := ?h\<rparr>"
    have m: "map_of (connections ?q) target = Some []" by (simp add: map_of_assign)
    have cl: "cleanUpOlderThan_inlock_list now [] (heap ?q) = Some ([], ?h)" by simp
    from loop_empty [OF m cl, of env timeout] loop [of "[]"] a
    have "acquireConnection_loop env target now timeout q =
          Returns None
            (q\<lparr>connections := assign target [] (connections q), heap := ?h,
               lastUsedHosts := assign target kNeverTooStale (lastUsedHosts q)\<rparr>)"
      by (simp add: assign_assign)
    with sweep show "acquireConnection env target now timeout p =
          acquireConnection_dial env target now timeout
            (q\<lparr>connections := assign target [] (connections q), heap := ?h,
               lastUsedHosts := assign target kNeverTooStale (lastUsedHosts q)\<rparr>)"
      by (simp add: acquireConnection_def)
  next
    assume "acquireConnection env target now timeout p = Throws x p'"
    then show "x = ConnectFailed \<or> x = AuthenticationFailed \<or> (\<exists>e. x = AuthError e) \<or>
        (\<exists>e a. x = ProbeError e \<and> isStillConnected env a = ProbeThrows e)"
      by (rule acquire_throws_kinds)
  }
qed

text \<open>
Instances of C1's theorem on \<open>stateF4\<close>, whose endpoint 1 has the idle records \<open>recH\<close>
and \<open>recA\<close>, at time 2000: \<open>recH\<close> is reported dead in all three; the probe of
\<open>recA\<close> throws (the caller receives the exception, both objects are deleted), answers
true (\<open>recA\<close> is returned), or answers false (the dial follows).
\<close>

theorem acquire_probe_failure_policy_witness:
  "acquireConnection mixedEnv 1 2000 500 stateF4 = Throws (ProbeError 7) stateF4_thrown \<and>
   acquireConnection reuseEnv 1 2000 500 stateF4 = Returns recA stateF4_reused \<and>
   acquireConnection deadEnv 1 2000 500 stateF4 =
     acquireConnection_dial deadEnv 1 2000 500 stateF4_emptied"
proof -
  have sweep: "cleanUpStaleHosts_inlock 2000 stateF4 = Returns () stateF4"
    by (simp add: eval_defs run_defs)
  have found: "map_of (connections stateF4) 1 = Some [recH, recA]"
    by (simp add: run_defs)
  have owned: "distinct (map conn [recH, recA])"
    "\<forall>ci \<in> set [recH, recA]. heap stateF4 (conn ci) \<noteq> None"
    by (simp_all add: run_defs)
  have kept: "filter (shouldKeepConnection 2000) [recH, recA] = [recH] @ recA # []"
    "filter (shouldKeepConnection 2000) [recH, recA] = [recH, recA]"
    by (simp_all add: eval_defs run_defs)
  have none: "expired 2000 [recH, recA] = {}"
    by (simp add: expired_def eval_defs run_defs)
  have mixed: "\<forall>ci \<in> set [recH]. isStillConnected mixedEnv (conn ci) = NotConnected"
    "isStillConnected mixedEnv (conn recA) = ProbeThrows 7"
    by (simp_all add: run_defs)
  have reuse: "\<forall>ci \<in> set [recH]. isStillConnected reuseEnv (conn ci) = NotConnected"
    "isStillConnected reuseEnv (conn recA) = StillConnected"
    "heap stateF4 (conn recA) = Some (client 1)"
    by (simp_all add: run_defs)
  have dead: "\<forall>ci \<in> set [recH, recA]. isStillConnected deadEnv (conn ci) = NotConnected"
    by (simp add: run_defs)
  have s1: "stateF4\<lparr>connections := assign 1 [] (connections stateF4),
              heap := freed ({} \<union> conn ` set ([recH] @ [recA])) (heap stateF4)\<rparr> = stateF4_thrown"
    by (simp add: run_defs assign_def freed_def fun_eq_iff)
  have s2: "stateF4\<lparr>connections := assign 1 [] (connections stateF4),
              inUseConnections := recA # inUseConnections stateF4,
              heap := (freed ({} \<union> conn ` set [recH]) (heap stateF4))
                        (conn recA \<mapsto> (client 1)\<lparr>soTimeout := 500\<rparr>)\<rparr> = stateF4_reused"
    by (simp add: run_defs assign_def freed_def fun_eq_iff)
  have s3: "stateF4\<lparr>connections := assign 1 [] (connections stateF4),
              heap := freed ({} \<union> conn ` set [recH, recA]) (heap stateF4),
              lastUsedHosts := assign 1 kNeverTooStale (lastUsedHosts stateF4)\<rparr> = stateF4_emptied"
    by (simp add: run_defs assign_def freed_def fun_eq_iff)
  from acquire_probe_failure_policy [OF sweep found owned mixed(1),
      where candidate = recA and rest = "[]" and e = 7 and timeout = 500] kept(1) mixed(2) none s1
  have a: "acquireConnection mixedEnv 1 2000 500 stateF4 = Throws (ProbeError 7) stateF4_thrown"
    by simp
  from acquire_probe_failure_policy [OF sweep found owned reuse(1),
      where candidate = recA and rest = "[]" and c = "client 1" and timeout = 500]
    kept(1) reuse(2,3) none s2
  have b: "acquireConnection reuseEnv 1 2000 500 stateF4 = Returns recA stateF4_reused"
    by simp
  from acquire_probe_failure_policy [OF sweep found owned dead, where timeout = 500]
    kept(2) none s3
  have c: "acquireConnection deadEnv 1 2000 500 stateF4 =
     acquireConnection_dial deadEnv 1 2000 500 stateF4_emptied"
    by simp
  from a b c show ?thesis by simp
qed

text \<open>
Claim C1 as stated fails: a new pool, acquire(1) and release at 1000, then acquire(1) at
2000 where the probe of the idle candidate throws. The caller receives the probe's
exception, which is neither the dial's \<open>ConnectFailed\<close> nor an authentication error.
\<close>

theorem acquire_probe_exception_reaches_caller:
  "acquireConnection exampleEnv 1 1000 500 (ConnectionPool_ctor 0) = Returns recA stateA1 \<and>
   releaseConnection recA 1000 stateA1 = Returns () stateA2 \<and>
   acquireConnection throwingEnv 1 2000 500 stateA2 = Throws (ProbeError 7) stateA2_probed \<and>
   ProbeError 7 \<noteq> ConnectFailed \<and> ProbeError 7 \<noteq> AuthenticationFailed"
  using run_A1 run_A2 run_A2_throws by simp

subsection \<open>C2: the stale-host sweep and the mapping's idle list\<close>

text \<open>
Claim C2 fails on the code. On \<open>stateA3\<close> (endpoint 1 last used at 1000, last sweep at
400000, its idle list holding the expired \<open>recA\<close>) the sweep at 800000 deletes the
connection object of \<open>recA\<close>, resets the endpoint's timestamp to the sentinel and
advances the sweep time, but the list stored in \<open>_connections\<close> still holds \<open>recA\<close>:
the clean-up ran on a copy of the list.
\<close>

theorem stale_sweep_leaves_destroyed_record_listed:
  "cleanUpStaleHosts_inlock 800000 stateA3 = Returns () stateA3_swept \<and>
   creationDate recA + kMaxConnectionAge \<le> 800000 \<and>
   map_of (connections stateA3) 1 = Some [recA] \<and>
   map_of (connections stateA3_swept) 1 = Some [recA] \<and>
   heap stateA3_swept (conn recA) = None \<and>
   map_of (lastUsedHosts stateA3_swept) 1 = Some kNeverTooStale \<and>
   lastCleanUpTime stateA3_swept = 800000"
  using run_A3_sweep by (simp add: run_defs kMaxConnectionAge_def)

subsection \<open>C3: one container per live record, none for a destroyed one\<close>

text \<open>
Claim C3 fails on the code. After acquire(1) at 1000, release at 1000, acquire(2) at
400000 and acquire(2) at 800000 on a new pool, the record \<open>recA\<close> has been destroyed
(its connection object is deleted) and is still a member of endpoint 1's idle list; the
next acquire(1) deletes the object a second time.
\<close>

theorem destroyed_record_still_in_idle_list:
  "acquireConnection exampleEnv 1 1000 500 (ConnectionPool_ctor 0) = Returns recA stateA1 \<and>
   releaseConnection recA 1000 stateA1 = Returns () stateA2 \<and>
   acquireConnection exampleEnv 2 400000 500 stateA2 = Returns recB stateA3 \<and>
   acquireConnection exampleEnv 2 800000 500 stateA3 = Returns recC stateA4 \<and>
   recA \<in> set (idleRecords stateA4) \<and>
   heap stateA4 (conn recA) = None \<and>
   acquireConnection exampleEnv 1 800001 500 stateA4 = Undefined"
  using run_A1 run_A2 run_A3 run_A4 run_A5 by (simp add: run_defs idleRecords_def)

subsection \<open>C4: leaving the loop of \<open>acquireConnection\<close> towards the dial\<close>

text \<open>
Claim C4, as amended. Let \<open>p\<close> be the pool after the stale-host sweep of an acquire on
\<open>q\<close>. If the target has no idle list in the mapping, the loop is left at once with the
pool unchanged (the last-activity map included). If the target's list is found and is
empty after age-based clean-up, the loop is left with the target's last-activity
timestamp set to the never-stale sentinel. Whenever the loop is left without a
candidate, either the list was absent and nothing changed, or the target's list is empty
and its timestamp is the sentinel; and \<open>acquireConnection\<close> then is the dial on that pool.
\<close>

theorem acquire_fall_through:
  "(map_of (connections p) target = None \<longrightarrow>
      acquireConnection_loop env target now timeout p = Returns None p) \<and>
   (map_of (connections p) target = Some hostConns \<and>
    cleanUpOlderThan_inlock_list now hostConns (heap p) = Some ([], hp') \<longrightarrow>
      acquireConnection_loop env target now timeout p =
        Returns None
          (p\<lparr>connections := assign target [] (connections p), heap := hp',
             lastUsedHosts := assign target kNeverTooStale (lastUsedHosts p)\<rparr>) \<and>
      map_of (assign target kNeverTooStale (lastUsedHosts p)) target = Some kNeverTooStale) \<and>
   (acquireConnection_loop env target now timeout p = Returns None p' \<longrightarrow>
      (if map_of (connections p) target = None then p' = p
       else map_of (connections p') target = Some [] \<and>
            map_of (lastUsedHosts p') target = Some kNeverTooStale)) \<and>
   (cleanUpStaleHosts_inlock now q = Returns () p \<and>
    acquireConnection_loop env target now timeout p = Returns None p' \<longrightarrow>
      acquireConnection env target now timeout q =
        acquireConnection_dial env target now timeout p')"
  by (auto simp: loop_absent loop_empty map_of_assign acquireConnection_def
           dest: loop_fallthrough)

text \<open>
Instances of C4's theorem: on a new pool the list of endpoint 1 is absent; on
\<open>stateA2\<close> at 40000 the list of endpoint 1 becomes empty, the timestamp becomes the
sentinel and the acquire is the dial.
\<close>

theorem acquire_fall_through_witness:
  "acquireConnection_loop exampleEnv 1 1000 500 (ConnectionPool_ctor 0 :: nat ConnectionPool) =
     Returns None (ConnectionPool_ctor 0) \<and>
   acquireConnection_loop exampleEnv 1 40000 500 stateA2 = Returns None stateA2_emptied \<and>
   map_of (lastUsedHosts stateA2_emptied) 1 = Some kNeverTooStale \<and>
   acquireConnection exampleEnv 1 40000 500 stateA2 =
     acquireConnection_dial exampleEnv 1 40000 500 stateA2_emptied"
proof -
  have a: "map_of (connections (ConnectionPool_ctor 0 :: nat ConnectionPool)) 1 = None"
    by (simp add: ConnectionPool_ctor_def)
  have h: "map_of (connections stateA2) 1 = Some [recA] \<and>
    cleanUpOlderThan_inlock_list 40000 [recA] (heap stateA2) = Some ([], Map.empty)"
    by (simp add: eval_defs run_defs)
  have s: "cleanUpStaleHosts_inlock 40000 stateA2 = Returns () stateA2"
    by (simp add: eval_defs run_defs)
  have e: "stateA2\<lparr>connections := assign 1 [] (connections stateA2), heap := Map.empty,
             lastUsedHosts := assign 1 kNeverTooStale (lastUsedHosts stateA2)\<rparr> = stateA2_emptied"
    by (simp add: run_defs stateA2_emptied_def assign_def)
  note t1 = acquire_fall_through
         [where p = "ConnectionPool_ctor 0 :: nat ConnectionPool" and target = "1::nat"
            and env = exampleEnv and now = 1000 and timeout = 500]
  note t2 = acquire_fall_through
         [where p = stateA2 and target = "1::nat" and hostConns = "[recA]" and now = 40000
            and hp' = Map.empty and env = exampleEnv and timeout = 500 and q = stateA2
            and p' = stateA2_emptied]
  from t1 a have 1: "acquireConnection_loop exampleEnv 1 1000 500
      (ConnectionPool_ctor 0 :: nat ConnectionPool) = Returns None (ConnectionPool_ctor 0)"
    by blast
  from t2 h e have 2: "acquireConnection_loop exampleEnv 1 40000 500 stateA2 = Returns None stateA2_emptied"
    by simp
  from t2 2 h have 3: "map_of (lastUsedHosts stateA2_emptied) 1 = Some kNeverTooStale"
    by simp
  from t2 2 s have 4: "acquireConnection exampleEnv 1 40000 500 stateA2 =
     acquireConnection_dial exampleEnv 1 40000 500 stateA2_emptied"
    by blast
  from 1 2 3 4 show ?thesis by blast
qed

text \<open>
Claim C4 as stated fails for an absent list: after acquire(1) and release at 1000 and
cleanUpOlderThan(31000), endpoint 1 has no idle list and the timestamp 1000; acquire(1)
at 50000 dials and leaves the timestamp at 1000, not at the sentinel.
\<close>

theorem acquire_absent_list_keeps_timestamp:
  "acquireConnection exampleEnv 1 1000 500 (ConnectionPool_ctor 0) = Returns recA stateA1 \<and>
   releaseConnection recA 1000 stateA1 = Returns () stateA2 \<and>
   cleanUpOlderThan 31000 stateA2 = Returns () stateB3 \<and>
   map_of (connections stateB3) 1 = None \<and>
   acquireConnection exampleEnv 1 50000 500 stateB3 = Returns recF stateB3_dialed \<and>
   map_of (lastUsedHosts stateB3_dialed) 1 = Some 1000 \<and>
   kNeverTooStale \<noteq> 1000"
  using run_A1 run_A2 run_B3 run_B3_dial
  by (simp add: run_defs kNeverTooStale_def)

subsection \<open>C5: \<open>releaseConnection\<close>\<close>

text \<open>
Claim C5, as amended. In a pool whose records own live, pairwise different connections,
\<open>releaseConnection(iter, now)\<close> on an in-use record whose connection is \<open>c\<close>, where
the expiration dates \<open>creationDate + kMaxConnectionAge\<close> of the record and of the idle
records of \<open>c\<close>'s endpoint do not pass \<open>Date_t::max()\<close>: if
\<open>creationDate + kMaxConnectionAge \<le> now\<close> the record is destroyed (erased from the in-use
list, its object deleted) and the mapping of idle lists is untouched; otherwise the idle
list of \<open>c\<close>'s endpoint (empty if there was none) is cleaned of the records with
\<open>creationDate + kMaxConnectionAge \<le> now\<close>, the record is moved from the in-use list to
its front, and the endpoint's last-activity timestamp becomes \<open>now\<close>.
\<close>

theorem releaseConnection_behaviour:
  assumes wf: "wellFormed p"
    and iter: "iter \<in> set (inUseConnections p)"
    and c: "heap p (conn iter) = Some c"
    and range: "expiresInRange iter"
    and ranges: "\<forall>ci \<in> set (idleList p (serverHostAndPort c)). expiresInRange ci"
  shows "releaseConnection iter now p =
           (if creationDate iter + kMaxConnectionAge \<le> now then
              Returns () (p\<lparr>inUseConnections := remove1 iter (inUseConnections p),
                            heap := (heap p)(conn iter := None)\<rparr>)
            else
              Returns ()
                (p\<lparr>connections :=
                     assign (serverHostAndPort c)
                       (iter # filter (\<lambda>ci. now < creationDate ci + kMaxConnectionAge)
                                 (idleList p (serverHostAndPort c)))
                       (connections p),
                   inUseConnections := remove1 iter (inUseConnections p),
                   heap :=
                     freed (conn ` set (filter (\<lambda>ci. creationDate ci + kMaxConnectionAge \<le> now)
                                          (idleList p (serverHostAndPort c))))
                       (heap p),
                   lastUsedHosts := assign (serverHostAndPort c) now (lastUsedHosts p)\<rparr>))"
proof (cases "creationDate iter + kMaxConnectionAge \<le> now")
  case True
  with range have "\<not> shouldKeepConnection now iter" by (simp add: shouldKeep_in_range)
  with True iter c show ?thesis
    by (simp add: releaseConnection_def destroy_inlock_member)
next
  case False
  with range have keep: "shouldKeepConnection now iter" by (simp add: shouldKeep_in_range)
  let ?host = "serverHostAndPort c"
  let ?l = "idleList p ?host"
  from wf have d: "distinct (map conn ?l)"
    by (auto simp: wellFormed_def intro: idleList_distinct)
  from wf idleList_subset [of p ?host] have live: "\<forall>ci \<in> set ?l. heap p (conn ci) \<noteq> None"
    by (auto simp: wellFormed_def)
  note clean = cleanUp_list_wf [OF d live, of now]
  have "conn iter \<notin> conn ` set (idleRecords p)"
    using wf iter by (auto simp: wellFormed_def)
  with idleList_subset [of p ?host] expired_subset [of now ?l]
  have "conn iter \<notin> expired now ?l" by blast
  with c have c': "freed (expired now ?l) (heap p) (conn iter) = Some c"
    by (simp add: freed_def)
  from False keep iter c clean c'
  have "releaseConnection iter now p =
          Returns ()
            (p\<lparr>connections := assign ?host (iter # filter (shouldKeepConnection now) ?l) (connections p),
               inUseConnections := remove1 iter (inUseConnections p),
               heap := freed (expired now ?l) (heap p),
               lastUsedHosts := assign ?host now (lastUsedHosts p)\<rparr>)"
    by (simp add: releaseConnection_def Let_def idleList_def [symmetric])
  with False show ?thesis
    by (simp add: filter_keep_in_range [OF ranges] expired_in_range [OF ranges])
qed

text \<open>
An instance of C5's theorem for each branch: releasing \<open>recA\<close> (created at 1000) from
\<open>stateA1\<close> at 1000 pools it, at 31000 destroys it.
\<close>

theorem releaseConnection_behaviour_witness:
  "releaseConnection recA 1000 stateA1 = Returns () stateA2 \<and>
   releaseConnection recA 31000 stateA1 = Returns () stateA1_destroyed"
proof -
  have wf: "wellFormed stateA1"
    by (simp add: wellFormed_def idleRecords_def run_defs)
  have i: "recA \<in> set (inUseConnections stateA1)" by (simp add: run_defs)
  have c: "heap stateA1 (conn recA) = Some (client 1)" by (simp add: run_defs)
  have r: "expiresInRange recA"
    by (simp add: expiresInRange_def isDate_def recA_def kMaxConnectionAge_def kNeverTooStale_def)
  have rs: "\<forall>ci \<in> set (idleList stateA1 (serverHostAndPort (client 1))). expiresInRange ci"
    by (simp add: idleList_def run_defs)
  note t = releaseConnection_behaviour [OF wf i c r rs]
  have a: "stateA1\<lparr>connections :=
                     assign (serverHostAndPort (client 1))
                       (recA # filter (\<lambda>ci. 1000 < creationDate ci + kMaxConnectionAge)
                                 (idleList stateA1 (serverHostAndPort (client 1))))
                       (connections stateA1),
                   inUseConnections := remove1 recA (inUseConnections stateA1),
                   heap :=
                     freed (conn ` set (filter (\<lambda>ci. creationDate ci + kMaxConnectionAge \<le> 1000)
                                          (idleList stateA1 (serverHostAndPort (client 1)))))
                       (heap stateA1),
                   lastUsedHosts := assign (serverHostAndPort (client 1)) 1000 (lastUsedHosts stateA1)\<rparr>
           = stateA2"
    by (simp add: run_defs assign_def idleList_def)
  have b: "stateA1\<lparr>inUseConnections := remove1 recA (inUseConnections stateA1),
                     heap := (heap stateA1)(conn recA := None)\<rparr> = stateA1_destroyed"
    by (simp add: run_defs)
  from t [of 1000] a have 1: "releaseConnection recA 1000 stateA1 = Returns () stateA2"
    by (simp add: recA_def kMaxConnectionAge_def)
  from t [of 31000] b have 2: "releaseConnection recA 31000 stateA1 = Returns () stateA1_destroyed"
    by (simp add: recA_def kMaxConnectionAge_def)
  from 1 2 show ?thesis by simp
qed

text \<open>
Claim C5 as stated fails at the end of the range of dates: a record acquired at
\<open>Date_t::max()\<close> and released at the same time has
\<open>creationDate + kMaxConnectionAge > now\<close>, and it is destroyed instead of pooled, since
the expiration date computed in \<open>_shouldKeepConnection\<close> has passed \<open>Date_t::max()\<close>.
\<close>

theorem releaseConnection_destroys_unexpired_record_at_max_date:
  "acquireConnection exampleEnv 1 kNeverTooStale 500 (ConnectionPool_ctor 0) = Returns recG stateE1 \<and>
   creationDate recG = kNeverTooStale \<and>
   \<not> creationDate recG + kMaxConnectionAge \<le> kNeverTooStale \<and>
   releaseConnection recG kNeverTooStale stateE1 = Returns () stateE1_destroyed \<and>
   connections stateE1_destroyed = [] \<and>
   heap stateE1_destroyed (conn recG) = None"
  using run_E1 run_E1_release
  by (simp add: run_defs kMaxConnectionAge_def)

subsection \<open>C6: \<open>cleanUpOlderThan\<close>\<close>

text \<open>
Claim C6, as amended. In a pool whose records own live, pairwise different connections
and whose idle records have expiration dates \<open>creationDate + kMaxConnectionAge\<close> that
do not pass \<open>Date_t::max()\<close>, \<open>cleanUpOlderThan(now)\<close> keeps in every idle list exactly
the records with \<open>now < creationDate + kMaxConnectionAge\<close>, in order, deletes the
objects of exactly the idle records with \<open>creationDate + kMaxConnectionAge \<le> now\<close>,
erases every endpoint whose list is then empty, and leaves the in-use list, its objects,
and all other members alone. When \<open>now\<close> precedes the creation time of every idle
record, nothing is destroyed and the only change is that endpoints whose idle list is
empty are erased from the mapping.
\<close>

theorem cleanUpOlderThan_behaviour:
  assumes wf: "wellFormed p"
    and ranges: "\<forall>ci \<in> set (idleRecords p). expiresInRange ci"
  shows "cleanUpOlderThan now p =
           Returns ()
             (p\<lparr>connections :=
                  filter (\<lambda>e. snd e \<noteq> [])
                    (map (\<lambda>e. (fst e, filter (\<lambda>ci. now < creationDate ci + kMaxConnectionAge) (snd e)))
                       (connections p)),
                heap :=
                  freed (conn ` set (filter (\<lambda>ci. creationDate ci + kMaxConnectionAge \<le> now)
                                       (idleRecords p)))
                    (heap p)\<rparr>) \<and>
         list_all (\<lambda>ci. freed (conn ` set (filter (\<lambda>ci. creationDate ci + kMaxConnectionAge \<le> now)
                                              (idleRecords p)))
                           (heap p) (conn ci) = heap p (conn ci))
           (inUseConnections p) \<and>
         ((\<forall>ci \<in> set (idleRecords p). now < creationDate ci) \<longrightarrow>
            cleanUpOlderThan now p =
              Returns () (p\<lparr>connections := filter (\<lambda>e. snd e \<noteq> []) (connections p)\<rparr>))"
proof -
  let ?young = "\<lambda>ci. now < creationDate ci + kMaxConnectionAge"
  let ?old = "conn ` set (filter (\<lambda>ci. creationDate ci + kMaxConnectionAge \<le> now) (idleRecords p))"
  from wf have "distinct (map conn (concat (map snd (connections p))))"
    and "\<forall>ci \<in> set (concat (map snd (connections p))). heap p (conn ci) \<noteq> None"
    by (auto simp: wellFormed_def idleRecords_def)
  from cleanUp_hosts_defined [OF this, of now] obtain m' hp' where
    r: "cleanUpOlderThan_inlock_hosts now (connections p) (heap p) = Some (m', hp')"
    by fastforce
  have old: "expired now (idleRecords p) = ?old"
    by (rule expired_in_range [OF ranges])
  have lists: "filter (shouldKeepConnection now) (snd e) = filter ?young (snd e)"
    if "e \<in> set (connections p)" for e
  proof (rule filter_keep_in_range)
    from that have "set (snd e) \<subseteq> set (idleRecords p)" by (auto simp: idleRecords_def)
    with ranges show "\<forall>ci \<in> set (snd e). expiresInRange ci" by blast
  qed
  then have maps: "map (\<lambda>e. (fst e, filter (shouldKeepConnection now) (snd e))) (connections p)
                 = map (\<lambda>e. (fst e, filter ?young (snd e))) (connections p)"
    by simp
  from cleanUp_hosts_Some [OF r] r
  have "cleanUpOlderThan now p =
           Returns ()
             (p\<lparr>connections :=
                  filter (\<lambda>e. snd e \<noteq> [])
                    (map (\<lambda>e. (fst e, filter (shouldKeepConnection now) (snd e))) (connections p)),
                heap := freed (expired now (idleRecords p)) (heap p)\<rparr>)"
    by (simp add: cleanUpOlderThan_def cleanUpOlderThan_inlock_def idleRecords_def)
  then have A: "cleanUpOlderThan now p =
           Returns ()
             (p\<lparr>connections :=
                  filter (\<lambda>e. snd e \<noteq> []) (map (\<lambda>e. (fst e, filter ?young (snd e))) (connections p)),
                heap := freed ?old (heap p)\<rparr>)"
    by (simp only: maps old)
  have B: "freed ?old (heap p) (conn ci) = heap p (conn ci)"
    if "ci \<in> set (inUseConnections p)" for ci
  proof -
    from wf that have "conn ci \<notin> conn ` set (idleRecords p)"
      by (auto simp: wellFormed_def)
    then have "conn ci \<notin> ?old" by auto
    then show ?thesis by (simp add: freed_def)
  qed
  have C: "cleanUpOlderThan now p =
              Returns () (p\<lparr>connections := filter (\<lambda>e. snd e \<noteq> []) (connections p)\<rparr>)"
    if young: "\<forall>ci \<in> set (idleRecords p). now < creationDate ci"
  proof -
    have keep: "?young ci" if "ci \<in> set (idleRecords p)" for ci
      using young that by (auto simp: kMaxConnectionAge_def)
    then have "filter (\<lambda>ci. creationDate ci + kMaxConnectionAge \<le> now) (idleRecords p) = []"
      by (fastforce simp: filter_empty_conv)
    then have h: "freed ?old (heap p) = heap p"
      by simp
    have "filter ?young (snd e) = snd e" if "e \<in> set (connections p)" for e
    proof -
      from that have "set (snd e) \<subseteq> set (idleRecords p)" by (auto simp: idleRecords_def)
      with keep show ?thesis by (auto simp: filter_id_conv)
    qed
    then have "map (\<lambda>e. (fst e, filter ?young (snd e))) (connections p) = connections p"
      by (simp add: map_idI)
    with A h show ?thesis by simp
  qed
  from A B C show ?thesis by (simp add: list_all_iff)
qed

text \<open>
Instances of C6's theorem: cleanUpOlderThan(31000) on \<open>stateA2\<close> destroys \<open>recA\<close> and
erases endpoint 1; cleanUpOlderThan(0) on \<open>stateC5\<close> destroys nothing and erases
endpoint 1, whose list was empty.
\<close>

theorem cleanUpOlderThan_behaviour_witness:
  "cleanUpOlderThan 31000 stateA2 = Returns () stateB3 \<and>
   cleanUpOlderThan 0 stateC5 = Returns () stateC6"
proof -
  have wfA: "wellFormed stateA2"
    by (simp add: wellFormed_def idleRecords_def run_defs)
  have wfC: "wellFormed stateC5"
    by (simp add: wellFormed_def idleRecords_def run_defs)
  have rA: "\<forall>ci \<in> set (idleRecords stateA2). expiresInRange ci"
    by (simp add: idleRecords_def run_defs expiresInRange_def isDate_def kMaxConnectionAge_def
          kNeverTooStale_def)
  have rC: "\<forall>ci \<in> set (idleRecords stateC5). expiresInRange ci"
    by (simp add: idleRecords_def run_defs expiresInRange_def isDate_def kMaxConnectionAge_def
          kNeverTooStale_def)
  have young: "\<forall>ci \<in> set (idleRecords stateC5). 0 < creationDate ci"
    by (simp add: idleRecords_def run_defs)
  have a: "stateA2\<lparr>connections :=
                  filter (\<lambda>e. snd e \<noteq> [])
                    (map (\<lambda>e. (fst e, filter (\<lambda>ci. 31000 < creationDate ci + kMaxConnectionAge) (snd e)))
                       (connections stateA2)),
                heap :=
                  freed (conn ` set (filter (\<lambda>ci. creationDate ci + kMaxConnectionAge \<le> 31000)
                                       (idleRecords stateA2)))
                    (heap stateA2)\<rparr> = stateB3"
    by (simp add: run_defs idleRecords_def kMaxConnectionAge_def freed_insert)
  have b: "stateC5\<lparr>connections := filter (\<lambda>e. snd e \<noteq> []) (connections stateC5)\<rparr> = stateC6"
    by (simp add: run_defs)
  from cleanUpOlderThan_behaviour [OF wfA rA, of 31000] a
  have 1: "cleanUpOlderThan 31000 stateA2 = Returns () stateB3" by simp
  from cleanUpOlderThan_behaviour [OF wfC rC, of 0] young
  have "cleanUpOlderThan 0 stateC5 =
          Returns () (stateC5\<lparr>connections := filter (\<lambda>e. snd e \<noteq> []) (connections stateC5)\<rparr>)"
    by blast
  with b have 2: "cleanUpOlderThan 0 stateC5 = Returns () stateC6" by simp
  from 1 2 show ?thesis by simp
qed

text \<open>
Claim C6 as stated fails in its last part: \<open>stateC5\<close> is reached from a new pool by
acquires and releases, every record in it was created after time 0, and
cleanUpOlderThan(0) is not a no-op on it: endpoint 1, whose idle list is empty, is erased
from the mapping. It also fails at the end of the range of dates: in \<open>stateE2\<close> the
idle record \<open>recG\<close> was created at \<open>Date_t::max()\<close>, after time 0 and with
\<open>creationDate + kMaxConnectionAge > 0\<close>, and cleanUpOlderThan(0) destroys it.
\<close>

theorem cleanUpOlderThan_changes_mapping_before_all_creation_times:
  "acquireConnection exampleEnv 1 1000 500 (ConnectionPool_ctor 0) = Returns recA stateA1 \<and>
   releaseConnection recA 1000 stateA1 = Returns () stateA2 \<and>
   acquireConnection exampleEnv 1 2000 500 stateA2 = Returns recA stateC3 \<and>
   acquireConnection exampleEnv 2 2000 500 stateC3 = Returns recD stateC4 \<and>
   releaseConnection recD 2000 stateC4 = Returns () stateC5 \<and>
   list_all (\<lambda>ci. 0 < creationDate ci) (idleRecords stateC5 @ inUseConnections stateC5) \<and>
   cleanUpOlderThan 0 stateC5 = Returns () stateC6 \<and>
   connections stateC5 = [(1, []), (2, [recD])] \<and>
   connections stateC6 = [(2, [recD])] \<and>
   stateC6 \<noteq> stateC5 \<and>
   acquireConnection exampleEnv 1 kNeverTooStale 500 (ConnectionPool_ctor 0) = Returns recG stateE1 \<and>
   releaseConnection recG (- 9223372036854775808) stateE1 = Returns () stateE2 \<and>
   idleRecords stateE2 = [recG] \<and>
   0 < creationDate recG \<and>
   \<not> creationDate recG + kMaxConnectionAge \<le> 0 \<and>
   cleanUpOlderThan 0 stateE2 = Returns () stateE3 \<and>
   idleRecords stateE3 = [] \<and>
   heap stateE3 (conn recG) = None"
proof -
  have "connections stateC6 \<noteq> connections stateC5" by (simp add: run_defs)
  then have "stateC6 \<noteq> stateC5" by auto
  with run_A1 run_A2 run_C3 run_C4 run_C5 run_C6 run_E1 run_E2 run_E3 show ?thesis
    by (simp add: run_defs idleRecords_def kMaxConnectionAge_def kNeverTooStale_def)
qed

subsection \<open>C7: \<open>ConnectionPtr\<close>\<close>

text \<open>
Claim C7. A \<open>ConnectionPtr\<close> that was constructed holds the pool and the acquired
record. \<open>done(now)\<close> is \<open>releaseConnection\<close> on that record and leaves the wrapper
without its pool, after which the destructor does nothing; the destructor of a wrapper
that still has its pool is \<open>destroyConnection\<close> on the record.
\<close>

theorem ConnectionPtr_release_or_destroy:
  "(ConnectionPtr_ctor env target now0 timeout p0 = Returns cp p \<longrightarrow>
      pool cp \<and> acquireConnection env target now0 timeout p0 = Returns (connInfo cp) p) \<and>
   (pool cp \<longrightarrow> ConnectionPtr_dtor cp p = destroyConnection (connInfo cp) p) \<and>
   (pool cp \<and> releaseConnection (connInfo cp) now p = Returns u p' \<longrightarrow>
      ConnectionPtr_done now cp p = Returns (cp\<lparr>pool := False\<rparr>) p' \<and>
      ConnectionPtr_dtor (cp\<lparr>pool := False\<rparr>) p' = Returns () p')"
  by (auto simp: ConnectionPtr_ctor_def ConnectionPtr_dtor_def ConnectionPtr_done_def
           split: outcome.splits)

text \<open>
An instance of C7's theorem: the wrapper constructed by acquire(1) at 1000 on a new
pool, destroyed at once, or finished at 1000 and then destroyed.
\<close>

theorem ConnectionPtr_release_or_destroy_witness:
  "ConnectionPtr_ctor exampleEnv 1 1000 500 (ConnectionPool_ctor 0) =
     Returns \<lparr>pool = True, connInfo = recA\<rparr> stateA1 \<and>
   ConnectionPtr_dtor \<lparr>pool = True, connInfo = recA\<rparr> stateA1 = destroyConnection recA stateA1 \<and>
   destroyConnection recA stateA1 = Returns () stateA1_destroyed \<and>
   ConnectionPtr_done 1000 \<lparr>pool = True, connInfo = recA\<rparr> stateA1 =
     Returns \<lparr>pool = False, connInfo = recA\<rparr> stateA2 \<and>
   ConnectionPtr_dtor \<lparr>pool = False, connInfo = recA\<rparr> stateA2 = Returns () stateA2"
proof -
  have k: "ConnectionPtr_ctor exampleEnv 1 1000 500 (ConnectionPool_ctor 0) =
     Returns \<lparr>pool = True, connInfo = recA\<rparr> stateA1"
    using run_A1 by (simp add: ConnectionPtr_ctor_def)
  have d: "destroyConnection recA stateA1 = Returns () stateA1_destroyed"
    by (simp add: eval_defs run_defs stateA1_destroyed_def)
  from ConnectionPtr_release_or_destroy
         [where cp = "\<lparr>pool = True, connInfo = recA\<rparr>" and p = stateA1 and now = 1000
            and u = "()" and p' = stateA2 and env = exampleEnv and target = "1::nat"
            and timeout = 500] run_A2 k d
  show ?thesis by simp
qed

subsection \<open>C8: \<open>closeAllInUseConnections\<close>\<close>

text \<open>
Claim C8. When every in-use record points at a live object,
\<open>closeAllInUseConnections\<close> returns the pool with the ports of exactly the in-use
records' objects shut down and nothing else changed: the in-use list, the idle lists, the
last-activity map and the last sweep time are the same.
\<close>

theorem closeAllInUseConnections_frame:
  assumes "\<forall>ci \<in> set (inUseConnections p). heap p (conn ci) \<noteq> None"
  shows "closeAllInUseConnections p =
           Returns () (p\<lparr>heap := portsShutDown (conn ` set (inUseConnections p)) (heap p)\<rparr>)"
  using shutdownPorts_live [OF assms] by (simp add: closeAllInUseConnections_def)

text \<open>
An instance of C8's theorem: \<open>stateC4\<close> has the two in-use records \<open>recD\<close> and \<open>recA\<close>.
\<close>

theorem closeAllInUseConnections_frame_witness:
  "closeAllInUseConnections stateC4 =
     Returns () (stateC4\<lparr>heap := portsShutDown {0, 1} (heap stateC4)\<rparr>) \<and>
   portsShutDown {0, 1} (heap stateC4) 0 = Some ((client 1)\<lparr>portShutdown := True\<rparr>) \<and>
   portsShutDown {0, 1} (heap stateC4) 1 = Some ((client 2)\<lparr>portShutdown := True\<rparr>) \<and>
   portsShutDown {0, 1} (heap stateC4) 2 = None"
proof -
  have live: "\<forall>ci \<in> set (inUseConnections stateC4). heap stateC4 (conn ci) \<noteq> None"
    by (simp add: run_defs)
  have s: "conn ` set (inUseConnections stateC4) = {0, 1}"
    by (auto simp: run_defs)
  from closeAllInUseConnections_frame [OF live] s
  have "closeAllInUseConnections stateC4 =
     Returns () (stateC4\<lparr>heap := portsShutDown {0, 1} (heap stateC4)\<rparr>)"
    by simp
  moreover have "portsShutDown {0, 1} (heap stateC4) 0 = Some ((client 1)\<lparr>portShutdown := True\<rparr>)"
    "portsShutDown {0, 1} (heap stateC4) 1 = Some ((client 2)\<lparr>portShutdown := True\<rparr>)"
    "portsShutDown {0, 1} (heap stateC4) 2 = None"
    by (simp_all add: portsShutDown_def run_defs)
  ultimately show ?thesis by simp
qed

subsection \<open>C9: the emptiness assertion of the stale-host sweep\<close>

text \<open>
Claim C9 fails on the code: \<open>invariant(connList.empty())\<close> fires on runs of the public
operations, although \<open>kCleanUpInterval\<close> is larger than \<open>kMaxConnectionAge\<close>. With a
clock that never decreases: acquire(1) and release, both 250000 ms before
\<open>Date_t::max()\<close>, then acquire(2) one millisecond later. The sum
\<open>_lastCleanUpTime + kCleanUpInterval\<close> of the gate has passed \<open>Date_t::max()\<close>, so the
sweep runs; endpoint 1 is stale (last used at the last sweep time), its record is not
expired, and the \<open>invariant\<close> fails. With a clock that steps back: acquire(1) at
280000, release at 0, acquire(2) at 300001; the sweep runs, endpoint 1 is stale (last
used at 0, last sweep at 0), its record is not expired at 300001, and the \<open>invariant\<close>
fails.
\<close>

theorem stale_sweep_assertion_fires:
  "acquireConnection exampleEnv 1 9223372036854525807 500 (ConnectionPool_ctor 0) =
     Returns recN stateN1 \<and>
   releaseConnection recN 9223372036854525807 stateN1 = Returns () stateN2 \<and>
   isDate 9223372036854525807 \<and> isDate 9223372036854525808 \<and>
   kMaxConnectionAge < kCleanUpInterval \<and>
   lastCleanUpTime stateN2 = 9223372036854525807 \<and>
   Date_plus (lastCleanUpTime stateN2) kCleanUpInterval < 9223372036854525808 \<and>
   map_of (lastUsedHosts stateN2) 1 = Some 9223372036854525807 \<and>
   map_of (connections stateN2) 1 = Some [recN] \<and>
   \<not> creationDate recN + kMaxConnectionAge \<le> 9223372036854525808 \<and>
   filter (shouldKeepConnection 9223372036854525808) [recN] = [recN] \<and>
   cleanUpStaleHosts_inlock 9223372036854525808 stateN2 = InvariantFailure \<and>
   acquireConnection exampleEnv 2 9223372036854525808 500 stateN2 = InvariantFailure \<and>
   acquireConnection exampleEnv 1 280000 500 (ConnectionPool_ctor 0) = Returns recE stateD1 \<and>
   releaseConnection recE 0 stateD1 = Returns () stateD2 \<and>
   lastCleanUpTime stateD2 + kCleanUpInterval < 300001 \<and>
   map_of (lastUsedHosts stateD2) 1 = Some 0 \<and> 0 \<le> lastCleanUpTime stateD2 \<and>
   map_of (connections stateD2) 1 = Some [recE] \<and>
   \<not> creationDate recE + kMaxConnectionAge \<le> 300001 \<and>
   cleanUpStaleHosts_inlock 300001 stateD2 = InvariantFailure \<and>
   acquireConnection exampleEnv 2 300001 500 stateD2 = InvariantFailure"
  using run_N1 run_N2 run_N3 run_D1 run_D2 run_D3
  by (simp add: eval_defs run_defs isDate_def)

subsection \<open>C10: the unchecked look-up of the stale-host sweep\<close>

text \<open>
Claim C10 fails on the code. After acquire(1) and release at 1000, cleanUpOlderThan(31000)
erases endpoint 1 from \<open>_connections\<close> and leaves its entry in \<open>_lastUsedHosts\<close>;
acquire(2) at 400000 advances the sweep time past that entry; the sweep of acquire(2) at
800000 then looks endpoint 1 up in \<open>_connections\<close>, finds nothing and dereferences
\<open>end()\<close>.
\<close>

theorem stale_sweep_dereferences_missing_entry:
  "acquireConnection exampleEnv 1 1000 500 (ConnectionPool_ctor 0) = Returns recA stateA1 \<and>
   releaseConnection recA 1000 stateA1 = Returns () stateA2 \<and>
   cleanUpOlderThan 31000 stateA2 = Returns () stateB3 \<and>
   acquireConnection exampleEnv 2 400000 500 stateB3 = Returns recB stateB4 \<and>
   map_of (lastUsedHosts stateB4) 1 = Some 1000 \<and>
   1000 \<le> lastCleanUpTime stateB4 \<and>
   map_of (connections stateB4) 1 = None \<and>
   cleanUpStaleHosts_inlock 800000 stateB4 = Undefined \<and>
   acquireConnection exampleEnv 2 800000 500 stateB4 = Undefined"
  using run_A1 run_A2 run_B3 run_B4 run_B5
  by (simp add: eval_defs run_defs)

end
